theory Spec2Isabelle
  imports Complex_Main "HOL-Library.Word" "HOL-Library.Multiset"
begin

section \<open>Memory request protocol (salam/memory_interface.hh)\<close>

text \<open>
  \<open>uint64_t\<close>, \<open>size_t\<close> (LP64) and \<open>Tick\<close> are 64-bit words whose arithmetic wraps;
  a \<open>std::vector<uint8_t>\<close> is a list of bytes.
\<close>

type_synonym u64 = "64 word"
type_synonym u8 = "8 word"

datatype MemoryRequestType =
  Read | Write | ReadExclusive | WriteInvalidate | Invalidate | Prefetch | Flush

text \<open>
  \<open>struct MemoryRequest\<close>. The fields \<open>id\<close>, \<open>type\<close> and \<open>size\<close> carry the suffix
  \<open>_req\<close> because the plain names are taken in HOL; \<open>context\<close> is the opaque pointer,
  kept as a number.
\<close>

record MemoryRequest =
  id_req :: u64
  type_req :: MemoryRequestType
  addr :: u64
  size_req :: u64
  data :: "u8 list"
  requestTick :: u64
  responseTick :: u64
  context_req :: nat
  completed :: bool
  success :: bool

text \<open>\<open>std::vector::resize(n)\<close>: truncate, or pad with value-initialised (zero) bytes.\<close>

definition resize :: "nat \<Rightarrow> u8 list \<Rightarrow> u8 list" where
  "resize n xs = take n xs @ replicate (n - length xs) 0"

text \<open>The four-argument constructor: a \<open>Write\<close> request gets a zeroed payload of \<open>size\<close> bytes.\<close>

definition MemoryRequest_new :: "u64 \<Rightarrow> MemoryRequestType \<Rightarrow> u64 \<Rightarrow> u64 \<Rightarrow> MemoryRequest" where
  "MemoryRequest_new reqId reqType address reqSize =
     \<lparr> id_req = reqId, type_req = reqType, addr = address, size_req = reqSize,
       data = (if reqType = Write then resize (unat reqSize) [] else []),
       requestTick = 0, responseTick = 0, context_req = 0,
       completed = False, success = False \<rparr>"

definition isRead :: "MemoryRequest \<Rightarrow> bool" where
  "isRead req \<longleftrightarrow> type_req req = Read \<or> type_req req = ReadExclusive"

definition isWrite :: "MemoryRequest \<Rightarrow> bool" where
  "isWrite req \<longleftrightarrow> type_req req = Write \<or> type_req req = WriteInvalidate"

subsection \<open>SimpleMemory\<close>

record SimpleMemory =
  base :: u64
  storage :: "u8 list"

definition SimpleMemory_new :: "u64 \<Rightarrow> nat \<Rightarrow> SimpleMemory" where
  "SimpleMemory_new baseAddr sz = \<lparr> base = baseAddr, storage = replicate sz 0 \<rparr>"

text \<open>
  \<open>std::copy\<close> through iterators that leave their vector is undefined behaviour; the model
  makes it the fault \<open>OutOfBounds\<close> instead of inventing a result.
\<close>

datatype fault = OutOfBounds

text \<open>
  The guard of \<open>recvFunctional\<close>, exactly as written: both sums are 64-bit unsigned and
  wrap. \<open>storage.size()\<close> is the length converted to \<open>size_t\<close>.
\<close>

definition range_guard_rejects :: "SimpleMemory \<Rightarrow> MemoryRequest \<Rightarrow> bool" where
  "range_guard_rejects m req \<longleftrightarrow>
     addr req < base m \<or> addr req + size_req req > base m + of_nat (length (storage m))"

definition recvFunctional :: "SimpleMemory \<Rightarrow> MemoryRequest \<Rightarrow> fault + (SimpleMemory \<times> MemoryRequest)" where
  "recvFunctional m req =
     (if range_guard_rejects m req then Inr (m, req\<lparr>success := False\<rparr>)
      else
        let offset = unat (addr req - base m); n = unat (size_req req) in
        if isRead req then
          (if offset + n \<le> length (storage m)
           then Inr (m, req\<lparr>data := take n (drop offset (storage m)), success := True\<rparr>)
           else Inl OutOfBounds)
        else if isWrite req then
          (if n \<le> length (data req) \<and> offset + n \<le> length (storage m)
           then Inr (m\<lparr>storage := take offset (storage m) @ take n (data req)
                                     @ drop (offset + n) (storage m)\<rparr>,
                     req\<lparr>success := True\<rparr>)
           else Inl OutOfBounds)
        else Inr (m, req\<lparr>success := True\<rparr>))"

text \<open>
  \<open>recvTimingRequest\<close> calls \<open>recvFunctional\<close> and then sets \<open>completed\<close> and \<open>success\<close>
  unconditionally; the Boolean is its return value.
\<close>

definition recvTimingRequest ::
    "SimpleMemory \<Rightarrow> MemoryRequest \<Rightarrow> fault + (SimpleMemory \<times> MemoryRequest \<times> bool)" where
  "recvTimingRequest m req =
     (case recvFunctional m req of
        Inl f \<Rightarrow> Inl f
      | Inr (m', req') \<Rightarrow> Inr (m', req'\<lparr>completed := True, success := True\<rparr>, True))"

text \<open>
  The byte range of a request and the range of the responder as sets of natural numbers,
  without wrap-around: the reading of ``wholly contained'' that the protocol intends.
\<close>

definition wholly_contained :: "SimpleMemory \<Rightarrow> MemoryRequest \<Rightarrow> bool" where
  "wholly_contained m req \<longleftrightarrow>
     unat (base m) \<le> unat (addr req) \<and>
     unat (addr req) + unat (size_req req) \<le> unat (base m) + length (storage m)"

text \<open>A functional write of \<open>bytes\<close> at \<open>a\<close>, then a functional read of as many bytes at \<open>a\<close>.\<close>

definition write_req :: "u64 \<Rightarrow> u8 list \<Rightarrow> MemoryRequest" where
  "write_req a bytes = (MemoryRequest_new 0 Write a (of_nat (length bytes)))\<lparr>data := bytes\<rparr>"

definition read_req :: "u64 \<Rightarrow> nat \<Rightarrow> MemoryRequest" where
  "read_req a len = MemoryRequest_new 1 Read a (of_nat len)"

definition write_then_read :: "SimpleMemory \<Rightarrow> u64 \<Rightarrow> u8 list \<Rightarrow> fault + (SimpleMemory \<times> MemoryRequest)" where
  "write_then_read m a bytes =
     (case recvFunctional m (write_req a bytes) of
        Inl f \<Rightarrow> Inl f
      | Inr (m', _) \<Rightarrow> recvFunctional m' (read_req a (length bytes)))"


section \<open>The gem5 memory port adapter (adapters/gem5/gem5_memory_port.hh)\<close>

text \<open>
  The port holds pointers to requests that its callers own and writes through them, so
  the request objects live in a store \<open>heap\<close> from addresses to requests, and the retry
  queue and the pending-request map hold addresses. A packet made by \<open>new\<close> is named by
  the allocation counter \<open>next_pkt\<close>. The gem5 port behind the adapter is outside this
  code: it is a state \<open>downstream\<close> of any type together with a function that answers
  \<open>sendTimingReq\<close>, both taken as parameters. \<open>dispatched\<close> is not a member of the class:
  it logs each request handed to \<open>port.sendTimingReq\<close> with the answer, and nothing
  reads it. The members \<open>portName\<close>, \<open>parent\<close>, \<open>reqId\<close> and the completion callback
  play no part in the functions below and are left out.
\<close>

datatype MemCmd = ReadReq | WriteReq | ReadExReq

record Packet =
  cmd :: MemCmd
  pkt_addr :: u64
  pkt_size :: u64
  payload :: "u8 list option"

record 'p Gem5MemoryPort =
  stalled :: bool
  nextRequestId :: u64
  pendingRequests :: "nat \<rightharpoonup> nat"
  retryQueue :: "nat list"
  heap :: "nat \<Rightarrow> MemoryRequest"
  downstream :: 'p
  next_pkt :: nat
  dispatched :: "(nat \<times> bool) list"

definition Gem5MemoryPort_new :: "(nat \<Rightarrow> MemoryRequest) \<Rightarrow> 'p \<Rightarrow> 'p Gem5MemoryPort" where
  "Gem5MemoryPort_new h d =
     \<lparr> stalled = False, nextRequestId = 0, pendingRequests = Map.empty, retryQueue = [],
       heap = h, downstream = d, next_pkt = 0, dispatched = [] \<rparr>"

text \<open>
  \<open>createPacket\<close>: the command by request type, the payload copied for writes and left
  uninitialised (\<open>None\<close>) otherwise. \<open>new\<close> does not return a null pointer, so the
  \<open>if (!pkt)\<close> branch of \<open>sendTimingRequest\<close> is dead.
\<close>

definition createPacket :: "MemoryRequest \<Rightarrow> Packet" where
  "createPacket req =
     \<lparr> cmd = (case type_req req of Read \<Rightarrow> ReadReq | Write \<Rightarrow> WriteReq
                | ReadExclusive \<Rightarrow> ReadExReq | _ \<Rightarrow> ReadReq),
       pkt_addr = addr req,
       pkt_size = size_req req,
       payload = (if isWrite req then Some (data req) else None) \<rparr>"

text \<open>
  \<open>sendTimingRequest(req)\<close> for the request at address \<open>r\<close>, at tick \<open>now\<close>, with
  \<open>dsend\<close> the downstream's answer to \<open>sendTimingReq\<close>.
\<close>

definition sendTimingRequest ::
    "('p \<Rightarrow> Packet \<Rightarrow> bool \<times> 'p) \<Rightarrow> u64 \<Rightarrow> nat \<Rightarrow> 'p Gem5MemoryPort
       \<Rightarrow> bool \<times> 'p Gem5MemoryPort" where
  "sendTimingRequest dsend now r st =
     (if stalled st then (False, st)
      else
        let pkt = createPacket (heap st r);
            k = next_pkt st;
            st1 = st\<lparr> next_pkt := Suc k,
                       pendingRequests := (pendingRequests st)(k \<mapsto> r),
                       heap := (heap st)(r := (heap st r)\<lparr>requestTick := now\<rparr>) \<rparr>;
            (ok, d') = dsend (downstream st1) pkt;
            st2 = st1\<lparr> downstream := d', dispatched := dispatched st1 @ [(r, ok)] \<rparr>
        in if \<not> ok
           then (False, st2\<lparr> pendingRequests := (pendingRequests st2)(k := None),
                               stalled := True,
                               retryQueue := retryQueue st2 @ [r] \<rparr>)
           else (True, st2))"

text \<open>
  \<open>handleTimingResponse\<close> for the packet \<open>k\<close>, which carries the data \<open>resp\<close> (if any)
  and the error flag \<open>err\<close>. The completion callback is the caller's code; what it does
  to the port, it does through the port's own operations.
\<close>

definition handleTimingResponse ::
    "u64 \<Rightarrow> nat \<Rightarrow> u8 list option \<Rightarrow> bool \<Rightarrow> 'p Gem5MemoryPort \<Rightarrow> 'p Gem5MemoryPort" where
  "handleTimingResponse now k resp err st =
     (case pendingRequests st k of
        None \<Rightarrow> st
      | Some r \<Rightarrow>
          let req = heap st r;
              req1 = (case resp of
                        Some bytes \<Rightarrow> if isRead req then req\<lparr>data := bytes\<rparr> else req
                      | None \<Rightarrow> req);
              req2 = req1\<lparr>responseTick := now, completed := True, success := \<not> err\<rparr>
          in st\<lparr> heap := (heap st)(r := req2),
                  pendingRequests := (pendingRequests st)(k := None) \<rparr>)"

text \<open>The \<open>while\<close> loop of \<open>handleRetry\<close>: take the front of the queue, send it, stop on refusal.\<close>

function retry_loop ::
    "('p \<Rightarrow> Packet \<Rightarrow> bool \<times> 'p) \<Rightarrow> u64 \<Rightarrow> 'p Gem5MemoryPort \<Rightarrow> 'p Gem5MemoryPort" where
  "retry_loop dsend now st =
     (case retryQueue st of
        [] \<Rightarrow> st
      | r # rest \<Rightarrow>
          let res = sendTimingRequest dsend now r (st\<lparr>retryQueue := rest\<rparr>)
          in if fst res then retry_loop dsend now (snd res) else snd res)"
  by pat_completeness auto
termination
proof (relation "measure (\<lambda>(dsend, now, st). length (retryQueue st))")
  show "wf (measure (\<lambda>(dsend, now, st). length (retryQueue st)))"
    by simp
next
  fix dsend :: "'p \<Rightarrow> Packet \<Rightarrow> bool \<times> 'p" and now :: u64 and st :: "'p Gem5MemoryPort"
    and r rest res
  assume q: "retryQueue st = r # rest"
    and res: "res = sendTimingRequest dsend now r (st\<lparr>retryQueue := rest\<rparr>)"
    and ok: "fst res"
  have "retryQueue (snd res) = rest"
    using res ok
    by (auto simp: sendTimingRequest_def Let_def case_prod_beta split: if_splits)
  then show "((dsend, now, snd res), (dsend, now, st))
               \<in> measure (\<lambda>(dsend, now, st). length (retryQueue st))"
    using q by simp
qed

declare retry_loop.simps [simp del]

definition handleRetry ::
    "('p \<Rightarrow> Packet \<Rightarrow> bool \<times> 'p) \<Rightarrow> u64 \<Rightarrow> 'p Gem5MemoryPort \<Rightarrow> 'p Gem5MemoryPort" where
  "handleRetry dsend now st = retry_loop dsend now (st\<lparr>stalled := False\<rparr>)"

text \<open>
  What can happen to a port: a caller submits the request at an address, the downstream
  notifies a retry, or a response arrives. \<open>run_port\<close> applies a sequence of such events.
\<close>

datatype port_event =
  Submit u64 nat
| RetryNotification u64
| Response u64 nat "u8 list option" bool

fun port_step ::
    "('p \<Rightarrow> Packet \<Rightarrow> bool \<times> 'p) \<Rightarrow> port_event \<Rightarrow> 'p Gem5MemoryPort \<Rightarrow> 'p Gem5MemoryPort" where
  "port_step dsend (Submit now r) st = snd (sendTimingRequest dsend now r st)"
| "port_step dsend (RetryNotification now) st = handleRetry dsend now st"
| "port_step dsend (Response now k resp err) st = handleTimingResponse now k resp err st"

fun run_port ::
    "('p \<Rightarrow> Packet \<Rightarrow> bool \<times> 'p) \<Rightarrow> port_event list \<Rightarrow> 'p Gem5MemoryPort \<Rightarrow> 'p Gem5MemoryPort" where
  "run_port dsend [] st = st"
| "run_port dsend (e # es) st = run_port dsend es (port_step dsend e st)"

text \<open>
  A downstream that follows a script: it answers the calls of \<open>sendTimingReq\<close> with the
  Booleans of a list, one after the other, and accepts once the list is used up.
\<close>

definition scripted :: "bool list \<Rightarrow> Packet \<Rightarrow> bool \<times> bool list" where
  "scripted script pkt = (case script of [] \<Rightarrow> (True, []) | b # bs \<Rightarrow> (b, bs))"

text \<open>
  What a retry notification does to a port, in terms of a number \<open>n\<close>: the first \<open>n\<close>
  queued requests were handed downstream in queue order and accepted; if \<open>n\<close> is short
  of the queue, the next one was handed down and refused, the port is stalled again and
  every request from that one on is still queued; otherwise the port is ready and the
  queue empty.
\<close>

definition retry_outcome :: "'p Gem5MemoryPort \<Rightarrow> 'p Gem5MemoryPort \<Rightarrow> nat \<Rightarrow> bool" where
  "retry_outcome st st' n \<longleftrightarrow>
     n \<le> length (retryQueue st) \<and>
     dispatched st' = dispatched st @ map (\<lambda>r. (r, True)) (take n (retryQueue st))
        @ (if n < length (retryQueue st) then [(retryQueue st ! n, False)] else []) \<and>
     (if n < length (retryQueue st)
      then stalled st' \<and> mset (retryQueue st') = mset (drop n (retryQueue st))
      else \<not> stalled st' \<and> retryQueue st' = [])"

text \<open>The queue of a stalled port holds one request, that of a ready port none.\<close>

definition queue_inv :: "'p Gem5MemoryPort \<Rightarrow> bool" where
  "queue_inv st \<longleftrightarrow> (if stalled st then length (retryQueue st) = 1 else retryQueue st = [])"

text \<open>A store of read requests, one at every address, to evaluate on.\<close>

definition abc_heap :: "nat \<Rightarrow> MemoryRequest" where
  "abc_heap r = MemoryRequest_new (of_nat r) Read (of_nat (64 * r)) 4"

section \<open>Statistics engine (scripts/patches/temp_hw_statistics_enhanced.hh and .cc)\<close>

subsection \<open>Enumerations\<close>

text \<open>
  The last enumerator of each C++ enumeration (\<open>FU_TYPE_COUNT\<close>, \<open>STALL_CAUSE_COUNT\<close>) is
  the bound of the arrays indexed by it, not a value that is ever stored: it is a number
  here, and the datatype holds the proper enumerators in their order.
\<close>

datatype FUType =
  FU_TYPE_COUNTER | FU_TYPE_INT_ADD_SUB | FU_TYPE_INT_MUL_DIV | FU_TYPE_INT_SHIFT
| FU_TYPE_INT_BITWISE | FU_TYPE_FP_FLOAT_ADD_SUB | FU_TYPE_FP_FLOAT_MUL_DIV
| FU_TYPE_FP_DOUBLE_ADD_SUB | FU_TYPE_FP_DOUBLE_MUL_DIV | FU_TYPE_ZERO_CYCLE | FU_TYPE_GEP
| FU_TYPE_CONVERSION | FU_TYPE_OTHER

definition FU_TYPE_COUNT :: nat where
  "FU_TYPE_COUNT = 13"

fun int_of_FUType :: "FUType \<Rightarrow> nat" where
  "int_of_FUType FU_TYPE_COUNTER = 0"
| "int_of_FUType FU_TYPE_INT_ADD_SUB = 1"
| "int_of_FUType FU_TYPE_INT_MUL_DIV = 2"
| "int_of_FUType FU_TYPE_INT_SHIFT = 3"
| "int_of_FUType FU_TYPE_INT_BITWISE = 4"
| "int_of_FUType FU_TYPE_FP_FLOAT_ADD_SUB = 5"
| "int_of_FUType FU_TYPE_FP_FLOAT_MUL_DIV = 6"
| "int_of_FUType FU_TYPE_FP_DOUBLE_ADD_SUB = 7"
| "int_of_FUType FU_TYPE_FP_DOUBLE_MUL_DIV = 8"
| "int_of_FUType FU_TYPE_ZERO_CYCLE = 9"
| "int_of_FUType FU_TYPE_GEP = 10"
| "int_of_FUType FU_TYPE_CONVERSION = 11"
| "int_of_FUType FU_TYPE_OTHER = 12"

datatype StallCause =
  NONE | MEMORY_LATENCY | RAW_HAZARD | WAW_HAZARD | WAR_HAZARD | FU_CONTENTION
| PORT_CONTENTION | CONTROL_FLOW | DMA_PENDING | RESOURCE_LIMIT

definition STALL_CAUSE_COUNT :: nat where
  "STALL_CAUSE_COUNT = 10"

text \<open>\<open>static_cast<int>(cause)\<close>.\<close>

fun int_of_StallCause :: "StallCause \<Rightarrow> nat" where
  "int_of_StallCause NONE = 0"
| "int_of_StallCause MEMORY_LATENCY = 1"
| "int_of_StallCause RAW_HAZARD = 2"
| "int_of_StallCause WAW_HAZARD = 3"
| "int_of_StallCause WAR_HAZARD = 4"
| "int_of_StallCause FU_CONTENTION = 5"
| "int_of_StallCause PORT_CONTENTION = 6"
| "int_of_StallCause CONTROL_FLOW = 7"
| "int_of_StallCause DMA_PENDING = 8"
| "int_of_StallCause RESOURCE_LIMIT = 9"

text \<open>
  \<open>static_cast<StallCause>(i)\<close>, which the code applies to \<open>1 \<le> i < STALL_CAUSE_COUNT\<close>
  only; the last equation is never reached from it.
\<close>

definition StallCause_of_int :: "nat \<Rightarrow> StallCause" where
  "StallCause_of_int i =
     (if i = 0 then NONE else if i = 1 then MEMORY_LATENCY else if i = 2 then RAW_HAZARD
      else if i = 3 then WAW_HAZARD else if i = 4 then WAR_HAZARD
      else if i = 5 then FU_CONTENTION else if i = 6 then PORT_CONTENTION
      else if i = 7 then CONTROL_FLOW else if i = 8 then DMA_PENDING else RESOURCE_LIMIT)"

subsection \<open>Stall root cause breakdown\<close>

text \<open>
  \<open>struct StallBreakdown\<close>. The two arrays are lists of \<open>STALL_CAUSE_COUNT\<close> and
  \<open>FU_TYPE_COUNT\<close> counters; every counter is a \<open>uint64_t\<close>.
\<close>

record StallBreakdown =
  by_cause :: "u64 list"
  memory_read_stalls :: u64
  memory_write_stalls :: u64
  cache_miss_stalls :: u64
  dma_stalls :: u64
  raw_stalls :: u64
  waw_stalls :: u64
  war_stalls :: u64
  fu_stalls_by_type :: "u64 list"
  read_port_stalls :: u64
  write_port_stalls :: u64
  reservation_full_stalls :: u64
  compute_queue_full_stalls :: u64
  total_stall_cycles :: u64
  max_consecutive_stalls :: u64
  current_stall_streak :: u64
  stall_events :: u64

text \<open>The default member initialisers, which are also what \<open>reset()\<close> restores.\<close>

definition StallBreakdown_new :: StallBreakdown where
  "StallBreakdown_new =
     \<lparr> by_cause = replicate STALL_CAUSE_COUNT 0,
       memory_read_stalls = 0, memory_write_stalls = 0, cache_miss_stalls = 0, dma_stalls = 0,
       raw_stalls = 0, waw_stalls = 0, war_stalls = 0,
       fu_stalls_by_type = replicate FU_TYPE_COUNT 0,
       read_port_stalls = 0, write_port_stalls = 0,
       reservation_full_stalls = 0, compute_queue_full_stalls = 0,
       total_stall_cycles = 0, max_consecutive_stalls = 0, current_stall_streak = 0,
       stall_events = 0 \<rparr>"

text \<open>
  The loop of \<open>getDominantCause\<close> over \<open>i = 1, ..., STALL_CAUSE_COUNT - 1\<close>, with its two
  local variables \<open>dominant\<close> and \<open>max_stalls\<close>.
\<close>

fun dominant_loop :: "u64 list \<Rightarrow> nat list \<Rightarrow> StallCause \<Rightarrow> u64 \<Rightarrow> StallCause" where
  "dominant_loop bc [] dominant max_stalls = dominant"
| "dominant_loop bc (i # is) dominant max_stalls =
     (if bc ! i > max_stalls then dominant_loop bc is (StallCause_of_int i) (bc ! i)
      else dominant_loop bc is dominant max_stalls)"

definition getDominantCause :: "StallBreakdown \<Rightarrow> StallCause" where
  "getDominantCause sb = dominant_loop (by_cause sb) [1 ..< STALL_CAUSE_COUNT] NONE 0"

definition getDominantBottleneck :: "StallBreakdown \<Rightarrow> string" where
  "getDominantBottleneck sb =
     (case getDominantCause sb of
        MEMORY_LATENCY \<Rightarrow> ''memory_latency''
      | RAW_HAZARD \<Rightarrow> ''data_dependency''
      | FU_CONTENTION \<Rightarrow> ''compute_bound''
      | PORT_CONTENTION \<Rightarrow> ''memory_bandwidth''
      | CONTROL_FLOW \<Rightarrow> ''control_flow''
      | DMA_PENDING \<Rightarrow> ''dma''
      | RESOURCE_LIMIT \<Rightarrow> ''resource_limit''
      | _ \<Rightarrow> ''none'')"

definition recordStall :: "StallCause \<Rightarrow> StallBreakdown \<Rightarrow> StallBreakdown" where
  "recordStall cause sb =
     (let i = int_of_StallCause cause;
          streak = current_stall_streak sb + 1
      in sb\<lparr> by_cause := (by_cause sb)[i := by_cause sb ! i + 1],
              total_stall_cycles := total_stall_cycles sb + 1,
              current_stall_streak := streak,
              max_consecutive_stalls := max (max_consecutive_stalls sb) streak \<rparr>)"

definition recordNoStall :: "StallBreakdown \<Rightarrow> StallBreakdown" where
  "recordNoStall sb =
     (let sb' = (if current_stall_streak sb > 0 then sb\<lparr>stall_events := stall_events sb + 1\<rparr>
                 else sb)
      in sb'\<lparr>current_stall_streak := 0\<rparr>)"

text \<open>\<open>N\<close> consecutive calls of \<open>recordStall\<close>, one for each cause of the list, in order.\<close>

fun recordStalls :: "StallCause list \<Rightarrow> StallBreakdown \<Rightarrow> StallBreakdown" where
  "recordStalls [] sb = sb"
| "recordStalls (c # cs) sb = recordStalls cs (recordStall c sb)"

subsection \<open>Double-precision arithmetic\<close>

text \<open>
  The statistics are \<open>double\<close>s, whose operations round. The model does not fix the
  rounding: a function that computes with doubles takes the arithmetic as its first
  argument, so that what is proved of it holds for IEEE arithmetic as for any other.
  \<open>fconst\<close> is the double nearest to a rational number: it stands for decimal literals
  and for the conversion of an integer to \<open>double\<close>.
\<close>

datatype exception = invalid_argument | out_of_range | length_error

text \<open>
  What a text can denote for \<open>strtod\<close>: a finite number, an infinity or a NaN.
  \<open>of_literal\<close> is the conversion of a signed literal to \<open>double\<close> as \<open>std::stod\<close> does
  it, which throws \<open>std::out_of_range\<close> where the library reports a range error.
\<close>

datatype literal = Finite rat | Infinite | Not_a_number

record 'd double_ops =
  fadd :: "'d \<Rightarrow> 'd \<Rightarrow> 'd"
  fmul :: "'d \<Rightarrow> 'd \<Rightarrow> 'd"
  fdiv :: "'d \<Rightarrow> 'd \<Rightarrow> 'd"
  fconst :: "rat \<Rightarrow> 'd"
  of_literal :: "bool \<Rightarrow> literal \<Rightarrow> exception + 'd"

definition of_int_d :: "'d double_ops \<Rightarrow> int \<Rightarrow> 'd" where
  "of_int_d A i = fconst A (of_int i)"

text \<open>
  Arithmetic without rounding, on the rationals. It agrees with IEEE doubles wherever
  every intermediate result is representable, as for the small integers of the examples.
  The rationals have no infinity and no NaN: a literal for one of them is a value this
  arithmetic cannot hold, and it divides by no zero in what follows.
\<close>

definition exact_ops :: "rat double_ops" where
  "exact_ops =
     \<lparr> fadd = (+), fmul = (*), fdiv = (/), fconst = (\<lambda>q. q),
       of_literal = (\<lambda>neg l. case l of Finite q \<Rightarrow> Inr (if neg then - q else q)
                                      | _ \<Rightarrow> Inl out_of_range) \<rparr>"

subsection \<open>Power and area coefficients\<close>

record 'd FUCoeffs =
  area_um2 :: 'd
  leakage_mw :: 'd
  dynamic_read_mw :: 'd
  dynamic_write_mw :: 'd

record 'd PowerAreaCoefficients =
  fu_coeffs :: "'d FUCoeffs list"
  reg_area_per_bit_um2 :: 'd
  reg_leakage_per_bit_mw :: 'd
  reg_dynamic_read_mw :: 'd
  reg_dynamic_write_mw :: 'd
  spm_leakage_per_kb_mw :: 'd
  spm_read_dynamic_per_access_mw :: 'd
  spm_write_dynamic_per_access_mw :: 'd
  spm_area_per_kb_um2 :: 'd
  cache_leakage_per_kb_mw :: 'd
  cache_read_dynamic_per_access_mw :: 'd
  cache_write_dynamic_per_access_mw :: 'd
  cache_area_per_kb_um2 :: 'd
  technology_node :: string
  voltage :: 'd
  temperature_c :: 'd

definition FUCoeffs_of :: "'d double_ops \<Rightarrow> rat \<Rightarrow> rat \<Rightarrow> rat \<Rightarrow> rat \<Rightarrow> 'd FUCoeffs" where
  "FUCoeffs_of A a l r w =
     \<lparr> area_um2 = fconst A a, leakage_mw = fconst A l,
       dynamic_read_mw = fconst A r, dynamic_write_mw = fconst A w \<rparr>"

text \<open>The default member initialisers of \<open>struct PowerAreaCoefficients\<close>.\<close>

definition PowerAreaCoefficients_new :: "'d double_ops \<Rightarrow> 'd PowerAreaCoefficients" where
  "PowerAreaCoefficients_new A =
     \<lparr> fu_coeffs = replicate FU_TYPE_COUNT (FUCoeffs_of A 0 0 0 0),
       reg_area_per_bit_um2 = fconst A (5981433 / 1000000),
       reg_leakage_per_bit_mw = fconst A (7395312 / 10 ^ 11),
       reg_dynamic_read_mw = fconst A (13226 / 10 ^ 7),
       reg_dynamic_write_mw = fconst A (1792126 / 10 ^ 10),
       spm_leakage_per_kb_mw = fconst A (1 / 2),
       spm_read_dynamic_per_access_mw = fconst A (1 / 10),
       spm_write_dynamic_per_access_mw = fconst A (15 / 100),
       spm_area_per_kb_um2 = fconst A 10000,
       cache_leakage_per_kb_mw = fconst A (8 / 10),
       cache_read_dynamic_per_access_mw = fconst A (2 / 10),
       cache_write_dynamic_per_access_mw = fconst A (25 / 100),
       cache_area_per_kb_um2 = fconst A 15000,
       technology_node = ''45nm'',
       voltage = fconst A 1,
       temperature_c = fconst A 25 \<rparr>"

text \<open>
  \<open>setDefaults\<close> assigns the entries of ten functional-unit types and leaves those of
  \<open>FU_TYPE_COUNTER\<close>, \<open>FU_TYPE_ZERO_CYCLE\<close> and \<open>FU_TYPE_OTHER\<close> as they are.
\<close>

definition setDefaults :: "'d double_ops \<Rightarrow> 'd PowerAreaCoefficients \<Rightarrow> 'd PowerAreaCoefficients" where
  "setDefaults A cfg =
     cfg\<lparr> technology_node := ''45nm'',
          voltage := fconst A 1,
          temperature_c := fconst A 25,
          fu_coeffs := (fu_coeffs cfg)
            [ int_of_FUType FU_TYPE_INT_ADD_SUB :=
                FUCoeffs_of A (179443 / 1000) (2380803 / 10 ^ 9) (81153 / 10 ^ 7) (6162853 / 10 ^ 9),
              int_of_FUType FU_TYPE_INT_MUL_DIV :=
                FUCoeffs_of A 4595 (4817683 / 10 ^ 8) (5725752 / 10 ^ 7) (866289 / 10 ^ 6),
              int_of_FUType FU_TYPE_INT_BITWISE :=
                FUCoeffs_of A (5036996 / 10 ^ 5) (6111633 / 10 ^ 10) (1680942 / 10 ^ 9) (132242 / 10 ^ 8),
              int_of_FUType FU_TYPE_INT_SHIFT :=
                FUCoeffs_of A 100 (1 / 1000) (2 / 1000) (15 / 10000),
              int_of_FUType FU_TYPE_FP_FLOAT_ADD_SUB :=
                FUCoeffs_of A 1500 (15 / 1000) (5 / 100) (4 / 100),
              int_of_FUType FU_TYPE_FP_FLOAT_MUL_DIV :=
                FUCoeffs_of A 3000 (3 / 100) (1 / 10) (8 / 100),
              int_of_FUType FU_TYPE_FP_DOUBLE_ADD_SUB :=
                FUCoeffs_of A 3000 (3 / 100) (1 / 10) (8 / 100),
              int_of_FUType FU_TYPE_FP_DOUBLE_MUL_DIV :=
                FUCoeffs_of A 6000 (6 / 100) (2 / 10) (15 / 100),
              int_of_FUType FU_TYPE_GEP :=
                FUCoeffs_of A 200 (2 / 1000) (5 / 1000) (4 / 1000),
              int_of_FUType FU_TYPE_CONVERSION :=
                FUCoeffs_of A 150 (15 / 10000) (4 / 1000) (3 / 1000) ],
          reg_area_per_bit_um2 := fconst A (5981433 / 1000000),
          reg_leakage_per_bit_mw := fconst A (7395312 / 10 ^ 11),
          reg_dynamic_read_mw := fconst A (13226 / 10 ^ 7),
          reg_dynamic_write_mw := fconst A (1792126 / 10 ^ 10),
          spm_leakage_per_kb_mw := fconst A (1 / 2),
          spm_read_dynamic_per_access_mw := fconst A (1 / 10),
          spm_write_dynamic_per_access_mw := fconst A (15 / 100),
          spm_area_per_kb_um2 := fconst A 10000,
          cache_leakage_per_kb_mw := fconst A (8 / 10),
          cache_read_dynamic_per_access_mw := fconst A (2 / 10),
          cache_write_dynamic_per_access_mw := fconst A (25 / 100),
          cache_area_per_kb_um2 := fconst A 15000 \<rparr>"

subsection \<open>Reading coefficients from a file\<close>

text \<open>
  \<open>std::stod\<close> hands the text up to its first NUL to \<open>strtod\<close>, which skips white space,
  reads a sign and then the longest prefix that is a number: hexadecimal (\<open>0x\<close>, hex
  digits with an optional point, an optional binary exponent), decimal (digits with an
  optional point, an optional decimal exponent), \<open>inf\<close> or \<open>nan\<close> in any case. When there
  is none \<open>std::stod\<close> throws \<open>std::invalid_argument\<close>. The point is that of the C locale.
\<close>

definition isspace :: "char \<Rightarrow> bool" where
  "isspace c \<longleftrightarrow> (of_char c :: nat) = 32 \<or> (9 \<le> (of_char c :: nat) \<and> (of_char c :: nat) \<le> 13)"

definition isdigit :: "char \<Rightarrow> bool" where
  "isdigit c \<longleftrightarrow> 48 \<le> (of_char c :: nat) \<and> (of_char c :: nat) \<le> 57"

definition isxdigit :: "char \<Rightarrow> bool" where
  "isxdigit c \<longleftrightarrow> isdigit c \<or> (65 \<le> (of_char c :: nat) \<and> (of_char c :: nat) \<le> 70)
                      \<or> (97 \<le> (of_char c :: nat) \<and> (of_char c :: nat) \<le> 102)"

definition tolower :: "char \<Rightarrow> char" where
  "tolower c = (if 65 \<le> (of_char c :: nat) \<and> (of_char c :: nat) \<le> 90
                then char_of ((of_char c :: nat) + 32) else c)"

text \<open>The value of a string of decimal digits, most significant first.\<close>

definition digits_val :: "string \<Rightarrow> nat" where
  "digits_val ds = foldl (\<lambda>v c. 10 * v + (of_char c - 48)) 0 ds"

text \<open>The value of a string of hexadecimal digits.\<close>

definition xdigit_val :: "char \<Rightarrow> nat" where
  "xdigit_val c = (if isdigit c then of_char c - 48
                   else if (of_char c :: nat) \<le> 70 then of_char c - 55 else of_char c - 87)"

definition xdigits_val :: "string \<Rightarrow> nat" where
  "xdigits_val ds = foldl (\<lambda>v c. 16 * v + xdigit_val c) 0 ds"

definition read_sign :: "string \<Rightarrow> bool \<times> string" where
  "read_sign s =
     (case s of
        c # rest \<Rightarrow> if c = CHR ''-'' then (True, rest)
                    else if c = CHR ''+'' then (False, rest) else (False, s)
      | [] \<Rightarrow> (False, s))"

text \<open>
  The exponent part after the mantissa: the letter (\<open>e\<close> for decimal, \<open>p\<close> for
  hexadecimal notation) in either case, a sign, at least one decimal digit; 0 when there
  is no such part.
\<close>

definition read_exponent :: "char \<Rightarrow> string \<Rightarrow> int" where
  "read_exponent letter s =
     (case s of
        c # rest \<Rightarrow>
          if tolower c = letter then
            (let (neg, t) = read_sign rest; ds = takeWhile isdigit t
             in if ds = [] then 0
                else if neg then - int (digits_val ds) else int (digits_val ds))
          else 0
      | [] \<Rightarrow> 0)"

definition pow :: "rat \<Rightarrow> int \<Rightarrow> rat" where
  "pow b e = (if 0 \<le> e then b ^ nat e else 1 / b ^ nat (- e))"

text \<open>
  Digits with an optional point in base 10 or 16: the digits before the point, those
  after it, and the rest of the text.
\<close>

definition read_mantissa :: "(char \<Rightarrow> bool) \<Rightarrow> string \<Rightarrow> string \<times> string \<times> string" where
  "read_mantissa is_digit t =
     (let ip = takeWhile is_digit t;
          t1 = dropWhile is_digit t
      in case t1 of
           c # r \<Rightarrow> if c = CHR ''.'' then (ip, takeWhile is_digit r, dropWhile is_digit r)
                    else (ip, [], t1)
         | [] \<Rightarrow> (ip, [], t1))"

text \<open>What \<open>strtod\<close> reads after the sign, if anything.\<close>

definition read_literal :: "string \<Rightarrow> literal option" where
  "read_literal t =
     (let (xi, xf, xr) = read_mantissa isxdigit (drop 2 t);
          (ip, fp, r) = read_mantissa isdigit t
      in if map tolower (take 2 t) = ''0x'' \<and> (xi \<noteq> [] \<or> xf \<noteq> []) then
           Some (Finite ((of_nat (xdigits_val xi) + of_nat (xdigits_val xf) / 16 ^ length xf)
                         * pow 2 (read_exponent CHR ''p'' xr)))
         else if ip \<noteq> [] \<or> fp \<noteq> [] then
           Some (Finite ((of_nat (digits_val ip) + of_nat (digits_val fp) / 10 ^ length fp)
                         * pow 10 (read_exponent CHR ''e'' r)))
         else if map tolower (take 3 t) = ''inf'' then Some Infinite
         else if map tolower (take 3 t) = ''nan'' then Some Not_a_number
         else None)"

definition stod :: "'d double_ops \<Rightarrow> string \<Rightarrow> exception + 'd" where
  "stod A str =
     (let (neg, t) = read_sign (dropWhile isspace (takeWhile (\<lambda>c. c \<noteq> CHR 0x00) str))
      in case read_literal t of
           None \<Rightarrow> Inl invalid_argument
         | Some l \<Rightarrow> of_literal A neg l)"

text \<open>\<open>std::remove\<close> followed by \<open>erase\<close>: delete every occurrence of a character.\<close>

definition erase_char :: "char \<Rightarrow> string \<Rightarrow> string" where
  "erase_char c s = filter (\<lambda>x. x \<noteq> c) s"

text \<open>\<open>line.find(':')\<close>: the position of the first colon, if there is one.\<close>

fun find_colon :: "string \<Rightarrow> nat option" where
  "find_colon [] = None"
| "find_colon (c # cs) =
     (if c = CHR '':'' then Some 0 else map_option Suc (find_colon cs))"

text \<open>One turn of the \<open>getline\<close> loop of \<open>loadFromFile\<close>.\<close>

definition load_line ::
    "'d double_ops \<Rightarrow> string \<Rightarrow> 'd PowerAreaCoefficients \<Rightarrow> exception + 'd PowerAreaCoefficients" where
  "load_line A line cfg =
     (case find_colon line of
        None \<Rightarrow> Inr cfg
      | Some colon \<Rightarrow>
          let key = erase_char CHR '' '' (erase_char CHR 0x22 (take colon line));
              val = erase_char CHR '','' (erase_char CHR 0x22 (drop (colon + 1) line))
          in if key = ''technology_node'' then Inr (cfg\<lparr>technology_node := val\<rparr>)
             else if key = ''voltage'' then
               (case stod A val of Inl e \<Rightarrow> Inl e | Inr v \<Rightarrow> Inr (cfg\<lparr>voltage := v\<rparr>))
             else if key = ''temperature_c'' then
               (case stod A val of Inl e \<Rightarrow> Inl e | Inr v \<Rightarrow> Inr (cfg\<lparr>temperature_c := v\<rparr>))
             else Inr cfg)"

fun load_lines ::
    "'d double_ops \<Rightarrow> string list \<Rightarrow> 'd PowerAreaCoefficients \<Rightarrow> exception + 'd PowerAreaCoefficients" where
  "load_lines A [] cfg = Inr cfg"
| "load_lines A (l # ls) cfg =
     (case load_line A l cfg of Inl e \<Rightarrow> Inl e | Inr cfg' \<Rightarrow> load_lines A ls cfg')"

text \<open>
  \<open>loadFromFile\<close>. The file is \<open>None\<close> when it cannot be opened and otherwise its lines,
  as \<open>std::getline\<close> delivers them. \<open>Inl\<close> is an exception that leaves the function:
  nothing in it, nor in its caller \<open>loadPowerAreaConfig\<close>, catches one.
\<close>

definition loadFromFile ::
    "'d double_ops \<Rightarrow> string list option \<Rightarrow> 'd PowerAreaCoefficients
       \<Rightarrow> exception + ('d PowerAreaCoefficients \<times> bool)" where
  "loadFromFile A file cfg =
     (case file of
        None \<Rightarrow> Inr (setDefaults A cfg, False)
      | Some lines \<Rightarrow>
          (case load_lines A lines cfg of Inl e \<Rightarrow> Inl e | Inr cfg' \<Rightarrow> Inr (cfg', True)))"

subsection \<open>Summary statistics\<close>

text \<open>
  The structs of the summary, with \<open>int\<close> and \<open>int64_t\<close> members as integers and
  \<open>uint64_t\<close> members as words. Signed overflow is undefined in C++; the model gives a
  sum or product that overflows the two's-complement value that the compiled code
  computes (\<open>wrap_i32\<close> for \<open>int\<close>, \<open>wrap_i64\<close> for \<open>int64_t\<close>). Of \<open>MemoryAccessStats\<close> the cache and scratchpad
  counters are kept, which is all that the functions below read; \<open>DataflowStats\<close> and
  \<open>AreaStats\<close> are not used by them and are left out.
\<close>

definition wrap_i32 :: "int \<Rightarrow> int" where
  "wrap_i32 x = (x + 2 ^ 31) mod 2 ^ 32 - 2 ^ 31"

definition wrap_i64 :: "int \<Rightarrow> int" where
  "wrap_i64 x = (x + 2 ^ 63) mod 2 ^ 64 - 2 ^ 63"

record 'd PerformanceStats =
  setup_time_ns :: 'd
  sim_time_ns :: 'd
  clock_period_ns :: int
  sys_clock_ghz :: 'd
  total_cycles :: int
  stall_cycles :: int
  executed_nodes :: int
  stall_type_breakdown :: "int list"
  node_breakdown :: "int list"

record 'd FURuntimeStats =
  max_concurrent :: int
  avg_occupancy :: 'd

record 'd FunctionalUnitStats =
  runtime :: "'d FURuntimeStats list"
  static_count :: "int list"

record MemoryStats =
  cache_size_kb :: int
  cache_ports :: int
  spm_size_kb :: int
  spm_read_ports :: int
  spm_write_ports :: int
  read_bus_width :: int
  write_bus_width :: int
  local_ports :: int
  mem_reads :: int
  mem_writes :: int
  dma_reads :: int
  dma_writes :: int

record 'd RegisterStats =
  total :: int
  max_usage :: int
  avg_usage :: 'd
  avg_size_bytes :: 'd
  reads :: int
  writes :: int

record 'd PowerStats =
  fu_leakage :: 'd
  fu_dynamic :: 'd
  fu_total :: 'd
  reg_leakage :: 'd
  reg_dynamic :: 'd
  reg_total :: 'd
  spm_leakage :: 'd
  spm_read_dynamic :: 'd
  spm_write_dynamic :: 'd
  spm_total :: 'd
  cache_leakage :: 'd
  cache_read_dynamic :: 'd
  cache_write_dynamic :: 'd
  cache_total :: 'd
  total_power :: 'd
  acc_spm_total :: 'd
  acc_cache_total :: 'd
  total_energy_nj :: 'd
  fu_energy_nj :: 'd
  mem_energy_nj :: 'd
  reg_energy_nj :: 'd

record 'd CycleStatsSummary =
  total_samples :: int
  avg_res_in_flight :: 'd
  avg_load_in_flight :: 'd
  avg_store_in_flight :: 'd
  avg_comp_in_flight :: 'd
  peak_res_in_flight :: int
  peak_load_in_flight :: int
  peak_store_in_flight :: int
  peak_comp_in_flight :: int
  total_load_raw_stalls :: int
  total_comp_fu_stalls :: int

record MemoryAccessStats =
  cache_hits :: u64
  cache_misses :: u64
  cache_read_hits :: u64
  cache_read_misses :: u64
  cache_write_hits :: u64
  cache_write_misses :: u64
  spm_reads :: u64
  spm_writes :: u64
  spm_read_bytes :: u64
  spm_write_bytes :: u64

record FUInstanceStats =
  instance_id :: int
  busy_cycles :: u64
  idle_cycles :: u64
  operations_executed :: u64

record FUTypeUtilizationStats =
  fu_type :: FUType
  instances_available :: int
  max_concurrent_used :: int
  total_busy_cycles :: u64
  total_operations :: u64
  contention_stalls :: u64
  contention_requests :: u64
  instance_stats :: "FUInstanceStats list"
  busy_intervals :: "(u64 \<times> u64) list"

record FUUtilizationStats =
  by_type :: "FUTypeUtilizationStats list"
  total_fu_busy_cycles :: u64
  total_fu_idle_cycles :: u64
  total_contention_stalls :: u64

record 'd SummaryStats =
  accelerator_name :: string
  timestamp :: string
  version :: string
  performance :: "'d PerformanceStats"
  functional_units :: "'d FunctionalUnitStats"
  memory :: MemoryStats
  registers :: "'d RegisterStats"
  power_stats :: "'d PowerStats"
  cycle_summary :: "'d CycleStatsSummary"
  memory_access :: MemoryAccessStats
  fu_utilization :: FUUtilizationStats
  stall_breakdown :: StallBreakdown

record HW_Cycle_Stats =
  cycle :: int
  resInFlight :: int
  loadInFlight :: int
  loadInternal :: int
  loadAcitve :: int
  loadRawStall :: int
  storeInFlight :: int
  storeActive :: int
  compInFlight :: int
  compLaunched :: int
  compActive :: int
  compFUStall :: int
  compCommited :: int
  stall_cause :: StallCause
  bytes_read_this_cycle :: int
  bytes_written_this_cycle :: int
  fu_utilization_mask :: int

text \<open>
  \<open>class HWStatistics\<close>. The iterator \<open>hw_buffer\<close> is the index of the active window in
  \<open>hw_buffer_list\<close> and \<open>cycle_buffer\<close> the position inside that window. \<open>rotations\<close> is
  not a member of the class: it counts the calls of \<open>updateBuffer\<close> and nothing reads it.
\<close>

record 'd HWStatistics =
  run_end :: int
  current_cycle_stats :: HW_Cycle_Stats
  cycle_buffer :: nat
  hw_buffer_list :: "HW_Cycle_Stats list list"
  hw_buffer :: nat
  current_buffer_index :: int
  cycle_tracking :: bool
  output_statistics :: bool
  output_file :: string
  pretty_print :: bool
  gui_stats_enabled :: bool
  stat_buffer_size :: int
  dbg :: bool
  summary :: "'d SummaryStats"
  power_area_config :: "'d PowerAreaCoefficients"
  rotations :: nat

subsection \<open>Default values and the constructor\<close>

definition HW_Cycle_Stats_new :: HW_Cycle_Stats where
  "HW_Cycle_Stats_new =
     \<lparr> cycle = 0, resInFlight = 0, loadInFlight = 0, loadInternal = 0, loadAcitve = 0,
       loadRawStall = 0, storeInFlight = 0, storeActive = 0, compInFlight = 0,
       compLaunched = 0, compActive = 0, compFUStall = 0, compCommited = 0,
       stall_cause = NONE, bytes_read_this_cycle = 0, bytes_written_this_cycle = 0,
       fu_utilization_mask = 0 \<rparr>"

definition PowerStats_new :: "'d double_ops \<Rightarrow> 'd PowerStats" where
  "PowerStats_new A =
     (let z = fconst A 0 in
      \<lparr> fu_leakage = z, fu_dynamic = z, fu_total = z,
        reg_leakage = z, reg_dynamic = z, reg_total = z,
        spm_leakage = z, spm_read_dynamic = z, spm_write_dynamic = z, spm_total = z,
        cache_leakage = z, cache_read_dynamic = z, cache_write_dynamic = z, cache_total = z,
        total_power = z, acc_spm_total = z, acc_cache_total = z,
        total_energy_nj = z, fu_energy_nj = z, mem_energy_nj = z, reg_energy_nj = z \<rparr>)"

definition CycleStatsSummary_new :: "'d double_ops \<Rightarrow> 'd CycleStatsSummary" where
  "CycleStatsSummary_new A =
     \<lparr> total_samples = 0,
       avg_res_in_flight = fconst A 0, avg_load_in_flight = fconst A 0,
       avg_store_in_flight = fconst A 0, avg_comp_in_flight = fconst A 0,
       peak_res_in_flight = 0, peak_load_in_flight = 0, peak_store_in_flight = 0,
       peak_comp_in_flight = 0, total_load_raw_stalls = 0, total_comp_fu_stalls = 0 \<rparr>"

text \<open>\<open>static_cast<FUType>(i)\<close> for \<open>i < FU_TYPE_COUNT\<close>.\<close>

definition FUType_of_int :: "nat \<Rightarrow> FUType" where
  "FUType_of_int i =
     (if i = 0 then FU_TYPE_COUNTER else if i = 1 then FU_TYPE_INT_ADD_SUB
      else if i = 2 then FU_TYPE_INT_MUL_DIV else if i = 3 then FU_TYPE_INT_SHIFT
      else if i = 4 then FU_TYPE_INT_BITWISE else if i = 5 then FU_TYPE_FP_FLOAT_ADD_SUB
      else if i = 6 then FU_TYPE_FP_FLOAT_MUL_DIV else if i = 7 then FU_TYPE_FP_DOUBLE_ADD_SUB
      else if i = 8 then FU_TYPE_FP_DOUBLE_MUL_DIV else if i = 9 then FU_TYPE_ZERO_CYCLE
      else if i = 10 then FU_TYPE_GEP else if i = 11 then FU_TYPE_CONVERSION
      else FU_TYPE_OTHER)"

definition FUTypeUtilizationStats_new :: "nat \<Rightarrow> FUTypeUtilizationStats" where
  "FUTypeUtilizationStats_new i =
     \<lparr> fu_type = FUType_of_int i, instances_available = 0, max_concurrent_used = 0,
       total_busy_cycles = 0, total_operations = 0, contention_stalls = 0,
       contention_requests = 0, instance_stats = [], busy_intervals = [] \<rparr>"

text \<open>The summary after \<open>SummaryStats::reset()\<close>, as the constructor leaves it.\<close>

definition SummaryStats_new :: "'d double_ops \<Rightarrow> 'd SummaryStats" where
  "SummaryStats_new A =
     \<lparr> accelerator_name = [], timestamp = [], version = ''3.0'',
       performance =
         \<lparr> setup_time_ns = fconst A 0, sim_time_ns = fconst A 0, clock_period_ns = 0,
           sys_clock_ghz = fconst A 0, total_cycles = 0, stall_cycles = 0, executed_nodes = 0,
           stall_type_breakdown = replicate 7 0, node_breakdown = replicate 7 0 \<rparr>,
       functional_units =
         \<lparr> runtime = replicate FU_TYPE_COUNT \<lparr> max_concurrent = 0, avg_occupancy = fconst A 0 \<rparr>,
           static_count = replicate FU_TYPE_COUNT 0 \<rparr>,
       memory =
         \<lparr> cache_size_kb = 0, cache_ports = 0, spm_size_kb = 0, spm_read_ports = 0,
           spm_write_ports = 0, read_bus_width = 0, write_bus_width = 0, local_ports = 0,
           mem_reads = 0, mem_writes = 0, dma_reads = 0, dma_writes = 0 \<rparr>,
       registers =
         \<lparr> total = 0, max_usage = 0, avg_usage = fconst A 0, avg_size_bytes = fconst A 0,
           reads = 0, writes = 0 \<rparr>,
       power_stats = PowerStats_new A,
       cycle_summary = CycleStatsSummary_new A,
       memory_access =
         \<lparr> cache_hits = 0, cache_misses = 0, cache_read_hits = 0, cache_read_misses = 0,
           cache_write_hits = 0, cache_write_misses = 0, spm_reads = 0, spm_writes = 0,
           spm_read_bytes = 0, spm_write_bytes = 0 \<rparr>,
       fu_utilization =
         \<lparr> by_type = map FUTypeUtilizationStats_new [0 ..< FU_TYPE_COUNT],
           total_fu_busy_cycles = 0, total_fu_idle_cycles = 0, total_contention_stalls = 0 \<rparr>,
       stall_breakdown = StallBreakdown_new \<rparr>"

text \<open>
  The object that the constructor of the enhanced variant builds for the parameters
  \<open>cycle_tracking\<close> and \<open>stat_buffer_size = K\<close>, a size from 0 on: with cycle tracking it
  has two windows of \<open>K\<close> default snapshots each.
\<close>

definition HWStatistics_new :: "'d double_ops \<Rightarrow> bool \<Rightarrow> nat \<Rightarrow> 'd HWStatistics" where
  "HWStatistics_new A tracking K =
     \<lparr> run_end = 0, current_cycle_stats = HW_Cycle_Stats_new, cycle_buffer = 0,
       hw_buffer_list = (if tracking then replicate 2 (replicate K HW_Cycle_Stats_new) else []),
       hw_buffer = 0, current_buffer_index = 0,
       cycle_tracking = tracking, output_statistics = False, output_file = [],
       pretty_print = False, gui_stats_enabled = False, stat_buffer_size = int K, dbg = False,
       summary = SummaryStats_new A,
       power_area_config = setDefaults A (PowerAreaCoefficients_new A),
       rotations = 0 \<rparr>"

text \<open>
  The constructor for any \<open>int\<close> parameter. With cycle tracking a negative size, turned
  into a \<open>size_t\<close>, is more than a vector can hold and \<open>resize\<close> throws
  \<open>std::length_error\<close>; without cycle tracking no window is made and the size is only
  stored. (A size for which memory runs out is not modelled.)
\<close>

definition HWStatistics_construct ::
    "'d double_ops \<Rightarrow> bool \<Rightarrow> int \<Rightarrow> exception + 'd HWStatistics" where
  "HWStatistics_construct A tracking K =
     (if 0 \<le> K then Inr (HWStatistics_new A tracking (nat K))
      else if tracking then Inl length_error
      else Inr ((HWStatistics_new A False 0)\<lparr>stat_buffer_size := K\<rparr>))"

subsection \<open>Stall tracking on the statistics object\<close>

definition recordStallCause :: "StallCause \<Rightarrow> 'd HWStatistics \<Rightarrow> 'd HWStatistics" where
  "recordStallCause cause hw =
     hw\<lparr>summary := (summary hw)\<lparr>stall_breakdown := recordStall cause (stall_breakdown (summary hw))\<rparr>\<rparr>"

definition HWStatistics_recordNoStall :: "'d HWStatistics \<Rightarrow> 'd HWStatistics" where
  "HWStatistics_recordNoStall hw =
     hw\<lparr>summary := (summary hw)\<lparr>stall_breakdown := recordNoStall (stall_breakdown (summary hw))\<rparr>\<rparr>"

text \<open>\<open>N\<close> consecutive calls of \<open>recordStallCause\<close>, one for each cause of the list.\<close>

fun recordStallCauses :: "StallCause list \<Rightarrow> 'd HWStatistics \<Rightarrow> 'd HWStatistics" where
  "recordStallCauses [] hw = hw"
| "recordStallCauses (c # cs) hw = recordStallCauses cs (recordStallCause c hw)"

subsection \<open>Collecting performance and memory figures\<close>

definition collectPerformanceStats ::
    "'d double_ops \<Rightarrow> 'd \<Rightarrow> 'd \<Rightarrow> int \<Rightarrow> int \<Rightarrow> int \<Rightarrow> 'd HWStatistics \<Rightarrow> 'd HWStatistics" where
  "collectPerformanceStats A setup_ns sim_ns clock_period cycles stalls hw =
     hw\<lparr>summary := (summary hw)\<lparr>performance := (performance (summary hw))
          \<lparr> setup_time_ns := setup_ns,
            sim_time_ns := sim_ns,
            clock_period_ns := clock_period,
            sys_clock_ghz := (if clock_period > 0 then fdiv A (fconst A 1) (of_int_d A clock_period)
                              else fconst A 0),
            total_cycles := cycles,
            stall_cycles := stalls,
            executed_nodes := wrap_i32 (wrap_i32 (cycles - stalls) - 1) \<rparr>\<rparr>\<rparr>"

definition collectMemoryStats ::
    "int \<Rightarrow> int \<Rightarrow> int \<Rightarrow> int \<Rightarrow> int \<Rightarrow> int \<Rightarrow> int \<Rightarrow> int \<Rightarrow> int
       \<Rightarrow> 'd HWStatistics \<Rightarrow> 'd HWStatistics" where
  "collectMemoryStats cache_kb cache_prts spm_kb spm_rd_ports spm_wr_ports
       m_reads m_writes d_reads d_writes hw =
     hw\<lparr>summary := (summary hw)\<lparr>memory := (memory (summary hw))
          \<lparr> cache_size_kb := cache_kb,
            cache_ports := cache_prts,
            spm_size_kb := spm_kb,
            spm_read_ports := spm_rd_ports,
            spm_write_ports := spm_wr_ports,
            mem_reads := m_reads,
            mem_writes := m_writes,
            dma_reads := d_reads,
            dma_writes := d_writes \<rparr>\<rparr>\<rparr>"

subsection \<open>Power from activity\<close>

text \<open>
  The loop of \<open>calculatePowerWithActivity\<close> over the functional-unit types, carrying
  \<open>pwr.fu_leakage\<close> and \<open>pwr.fu_dynamic\<close>.
\<close>

fun fu_power_loop ::
    "'d double_ops \<Rightarrow> 'd FUCoeffs list \<Rightarrow> int list \<Rightarrow> FUTypeUtilizationStats list
       \<Rightarrow> nat list \<Rightarrow> 'd \<times> 'd \<Rightarrow> 'd \<times> 'd" where
  "fu_power_loop A cs counts ut [] acc = acc"
| "fu_power_loop A cs counts ut (i # is) (leak, dyn) =
     (let count = counts ! i;
          ops = of_int_d A (uint (total_operations (ut ! i)))
      in fu_power_loop A cs counts ut is
           (fadd A leak (fmul A (of_int_d A count) (leakage_mw (cs ! i))),
            fadd A dyn (fmul A ops (fadd A (dynamic_read_mw (cs ! i)) (dynamic_write_mw (cs ! i))))))"

definition calculatePowerWithActivity :: "'d double_ops \<Rightarrow> 'd HWStatistics \<Rightarrow> 'd HWStatistics" where
  "calculatePowerWithActivity A hw =
     (let s = summary hw; cfg = power_area_config hw; pwr = power_stats s;
          (fu_leak, fu_dyn) =
             fu_power_loop A (fu_coeffs cfg) (static_count (functional_units s))
               (by_type (fu_utilization s)) [0 ..< FU_TYPE_COUNT] (fconst A 0, fconst A 0);
          fu_tot = fadd A fu_leak fu_dyn;
          reg_leak = fmul A (of_int_d A (wrap_i32 (total (registers s) * 32)))
                          (reg_leakage_per_bit_mw cfg);
          reg_dyn = fadd A (fmul A (of_int_d A (reads (registers s))) (reg_dynamic_read_mw cfg))
                           (fmul A (of_int_d A (writes (registers s))) (reg_dynamic_write_mw cfg));
          reg_tot = fadd A reg_leak reg_dyn;
          spm_leak = fmul A (of_int_d A (spm_size_kb (memory s))) (spm_leakage_per_kb_mw cfg);
          spm_rd = fmul A (of_int_d A (uint (spm_reads (memory_access s))))
                          (spm_read_dynamic_per_access_mw cfg);
          spm_wr = fmul A (of_int_d A (uint (spm_writes (memory_access s))))
                          (spm_write_dynamic_per_access_mw cfg);
          spm_tot = fadd A (fadd A spm_leak spm_rd) spm_wr;
          cache_reads = cache_read_hits (memory_access s) + cache_read_misses (memory_access s);
          cache_writes = cache_write_hits (memory_access s) + cache_write_misses (memory_access s);
          cache_leak = fmul A (of_int_d A (cache_size_kb (memory s))) (cache_leakage_per_kb_mw cfg);
          cache_rd = fmul A (of_int_d A (uint cache_reads)) (cache_read_dynamic_per_access_mw cfg);
          cache_wr = fmul A (of_int_d A (uint cache_writes)) (cache_write_dynamic_per_access_mw cfg);
          cache_tot = fadd A (fadd A cache_leak cache_rd) cache_wr;
          tot = fadd A (fadd A (fadd A fu_tot reg_tot) spm_tot) cache_tot;
          runtime_ns = of_int_d A (wrap_i32 (total_cycles (performance s)
                                            * clock_period_ns (performance s)));
          e6 = fconst A 1000000
      in hw\<lparr>summary := s\<lparr>power_stats := pwr
            \<lparr> fu_leakage := fu_leak, fu_dynamic := fu_dyn, fu_total := fu_tot,
              reg_leakage := reg_leak, reg_dynamic := reg_dyn, reg_total := reg_tot,
              spm_leakage := spm_leak, spm_read_dynamic := spm_rd, spm_write_dynamic := spm_wr,
              spm_total := spm_tot,
              cache_leakage := cache_leak, cache_read_dynamic := cache_rd,
              cache_write_dynamic := cache_wr, cache_total := cache_tot,
              total_power := tot,
              total_energy_nj := fdiv A (fmul A tot runtime_ns) e6,
              fu_energy_nj := fdiv A (fmul A fu_tot runtime_ns) e6,
              mem_energy_nj := fdiv A (fmul A (fadd A spm_tot cache_tot) runtime_ns) e6,
              reg_energy_nj := fdiv A (fmul A reg_tot runtime_ns) e6 \<rparr>\<rparr>\<rparr>)"

text \<open>
  \<open>collectPowerStats\<close> exists twice. The one of temp_hw_statistics_enhanced.cc adds the
  four block totals into \<open>total_power\<close>:
\<close>

definition collectPowerStats ::
    "'d double_ops \<Rightarrow> 'd \<Rightarrow> 'd \<Rightarrow> 'd \<Rightarrow> 'd \<Rightarrow> 'd \<Rightarrow> 'd \<Rightarrow> 'd \<Rightarrow> 'd \<Rightarrow> 'd \<Rightarrow> 'd
       \<Rightarrow> 'd HWStatistics \<Rightarrow> 'd HWStatistics" where
  "collectPowerStats A fu_leak fu_dyn reg_leak reg_dyn spm_leak spm_read spm_write
       cache_leak cache_read cache_write hw =
     (let s = summary hw; pwr = power_stats s;
          fu_tot = fadd A fu_leak fu_dyn;
          reg_tot = fadd A reg_leak reg_dyn;
          spm_tot = fadd A (fadd A spm_leak spm_read) spm_write;
          cache_tot = fadd A (fadd A cache_leak cache_read) cache_write
      in hw\<lparr>summary := s\<lparr>power_stats := pwr
            \<lparr> fu_leakage := fu_leak, fu_dynamic := fu_dyn, fu_total := fu_tot,
              reg_leakage := reg_leak, reg_dynamic := reg_dyn, reg_total := reg_tot,
              spm_leakage := spm_leak, spm_read_dynamic := spm_read,
              spm_write_dynamic := spm_write, spm_total := spm_tot,
              cache_leakage := cache_leak, cache_read_dynamic := cache_read,
              cache_write_dynamic := cache_write, cache_total := cache_tot,
              total_power := fadd A (fadd A (fadd A fu_tot reg_tot) spm_tot) cache_tot \<rparr>\<rparr>\<rparr>)"

text \<open>
  The one of temp_hw_statistics.cc adds the functional units and the registers only, and
  keeps the totals with each memory block in \<open>acc_spm_total\<close> and \<open>acc_cache_total\<close>:
\<close>

definition collectPowerStats_legacy ::
    "'d double_ops \<Rightarrow> 'd \<Rightarrow> 'd \<Rightarrow> 'd \<Rightarrow> 'd \<Rightarrow> 'd \<Rightarrow> 'd \<Rightarrow> 'd \<Rightarrow> 'd \<Rightarrow> 'd \<Rightarrow> 'd
       \<Rightarrow> 'd HWStatistics \<Rightarrow> 'd HWStatistics" where
  "collectPowerStats_legacy A fu_leak fu_dyn reg_leak reg_dyn spm_leak spm_read spm_write
       cache_leak cache_read cache_write hw =
     (let s = summary hw; pwr = power_stats s;
          fu_tot = fadd A fu_leak fu_dyn;
          reg_tot = fadd A reg_leak reg_dyn;
          spm_tot = fadd A (fadd A spm_leak spm_read) spm_write;
          cache_tot = fadd A (fadd A cache_leak cache_read) cache_write;
          tot = fadd A fu_tot reg_tot
      in hw\<lparr>summary := s\<lparr>power_stats := pwr
            \<lparr> fu_leakage := fu_leak, fu_dynamic := fu_dyn, fu_total := fu_tot,
              reg_leakage := reg_leak, reg_dynamic := reg_dyn, reg_total := reg_tot,
              spm_leakage := spm_leak, spm_read_dynamic := spm_read,
              spm_write_dynamic := spm_write, spm_total := spm_tot,
              cache_leakage := cache_leak, cache_read_dynamic := cache_read,
              cache_write_dynamic := cache_write, cache_total := cache_tot,
              total_power := tot,
              acc_spm_total := fadd A tot spm_tot,
              acc_cache_total := fadd A tot cache_tot \<rparr>\<rparr>\<rparr>)"

text \<open>
  A run to evaluate the power model on: a 2 KB scratchpad and nothing else that draws
  power, 1000 cycles of 1000 ns, default coefficients. Every number involved is a small
  integer or 0.5, so the arithmetic of doubles is exact on it.
\<close>

definition energy_example :: "rat HWStatistics" where
  "energy_example =
     collectMemoryStats 0 0 2 0 0 0 0 0 0
       (collectPerformanceStats exact_ops 0 0 1000 1000 0 (HWStatistics_new exact_ops False 0))"

subsection \<open>Cycle tracking, ring variant (temp_hw_statistics_enhanced.cc)\<close>

text \<open>
  \<open>updateBuffer\<close>: step to the next window, or back to the first after the last; the
  index arithmetic is done in \<open>size_t\<close>.
\<close>

definition updateBuffer :: "'d HWStatistics \<Rightarrow> 'd HWStatistics" where
  "updateBuffer hw =
     hw\<lparr> hw_buffer := (if Suc (hw_buffer hw) = length (hw_buffer_list hw) then 0
                        else Suc (hw_buffer hw)),
          cycle_buffer := 0,
          current_buffer_index :=
            (wrap_i32 (current_buffer_index hw + 1) mod 2 ^ 64)
              mod int (length (hw_buffer_list hw)),
          rotations := Suc (rotations hw) \<rparr>"

text \<open>
  \<open>recordCycleStats\<close> writes through the iterator \<open>cycle_buffer\<close>. Writing through an
  iterator at the end of its window is undefined behaviour: the result is \<open>None\<close> then.
\<close>

definition recordCycleStats :: "HW_Cycle_Stats \<Rightarrow> 'd HWStatistics \<Rightarrow> 'd HWStatistics option" where
  "recordCycleStats stats hw =
     (if \<not> cycle_tracking hw then Some hw
      else if hw_buffer hw < length (hw_buffer_list hw)
              \<and> cycle_buffer hw < length (hw_buffer_list hw ! hw_buffer hw)
      then
        let w = hw_buffer_list hw ! hw_buffer hw;
            hw1 = hw\<lparr> hw_buffer_list :=
                         (hw_buffer_list hw)[hw_buffer hw := w[cycle_buffer hw := stats]],
                       cycle_buffer := Suc (cycle_buffer hw) \<rparr>
        in Some (if Suc (cycle_buffer hw) = length w then updateBuffer hw1 else hw1)
      else None)"

text \<open>Recording a sequence of snapshots, one call each, in order.\<close>

fun recordCycleStats_all :: "HW_Cycle_Stats list \<Rightarrow> 'd HWStatistics \<Rightarrow> 'd HWStatistics option" where
  "recordCycleStats_all [] hw = Some hw"
| "recordCycleStats_all (s # ss) hw =
     (case recordCycleStats s hw of None \<Rightarrow> None | Some hw' \<Rightarrow> recordCycleStats_all ss hw')"

text \<open>
  The local variables of \<open>summarizeCycleStats\<close>: four \<open>uint64_t\<close> sums, the \<open>int count\<close>
  and the summary under construction.
\<close>

record 'd summarize_state =
  total_res :: u64
  total_load :: u64
  total_store :: u64
  total_comp :: u64
  count_acc :: int
  sum_acc :: "'d CycleStatsSummary"

text \<open>The body of the inner loop after its \<open>break\<close> test.\<close>

definition summarize_sample :: "HW_Cycle_Stats \<Rightarrow> 'd summarize_state \<Rightarrow> 'd summarize_state" where
  "summarize_sample stats acc =
     acc\<lparr> total_res := total_res acc + word_of_int (resInFlight stats),
           total_load := total_load acc + word_of_int (loadInFlight stats),
           total_store := total_store acc + word_of_int (storeInFlight stats),
           total_comp := total_comp acc + word_of_int (compInFlight stats),
           sum_acc := (sum_acc acc)
             \<lparr> peak_res_in_flight := max (peak_res_in_flight (sum_acc acc)) (resInFlight stats),
               peak_load_in_flight := max (peak_load_in_flight (sum_acc acc)) (loadInFlight stats),
               peak_store_in_flight := max (peak_store_in_flight (sum_acc acc)) (storeInFlight stats),
               peak_comp_in_flight := max (peak_comp_in_flight (sum_acc acc)) (compInFlight stats),
               total_load_raw_stalls :=
                 wrap_i32 (total_load_raw_stalls (sum_acc acc) + loadRawStall stats),
               total_comp_fu_stalls :=
                 wrap_i32 (total_comp_fu_stalls (sum_acc acc) + compFUStall stats) \<rparr>,
           count_acc := wrap_i32 (count_acc acc + 1) \<rparr>"

text \<open>The inner loop over one window; its \<open>break\<close> leaves this window only.\<close>

fun summarize_window :: "HW_Cycle_Stats list \<Rightarrow> 'd summarize_state \<Rightarrow> 'd summarize_state" where
  "summarize_window [] acc = acc"
| "summarize_window (stats # rest) acc =
     (if cycle stats = 0 \<and> count_acc acc > 0 then acc
      else summarize_window rest (summarize_sample stats acc))"

fun summarize_windows :: "HW_Cycle_Stats list list \<Rightarrow> 'd summarize_state \<Rightarrow> 'd summarize_state" where
  "summarize_windows [] acc = acc"
| "summarize_windows (w # ws) acc = summarize_windows ws (summarize_window w acc)"

definition summarizeCycleStats :: "'d double_ops \<Rightarrow> 'd HWStatistics \<Rightarrow> 'd CycleStatsSummary" where
  "summarizeCycleStats A hw =
     (if \<not> cycle_tracking hw then CycleStatsSummary_new A
      else
        let acc = summarize_windows (hw_buffer_list hw)
                    \<lparr> total_res = 0, total_load = 0, total_store = 0, total_comp = 0,
                      count_acc = 0, sum_acc = CycleStatsSummary_new A \<rparr>;
            s = (sum_acc acc)\<lparr>total_samples := count_acc acc\<rparr>
        in if count_acc acc > 0
           then s\<lparr> avg_res_in_flight :=
                      fdiv A (of_int_d A (uint (total_res acc))) (of_int_d A (count_acc acc)),
                    avg_load_in_flight :=
                      fdiv A (of_int_d A (uint (total_load acc))) (of_int_d A (count_acc acc)),
                    avg_store_in_flight :=
                      fdiv A (of_int_d A (uint (total_store acc))) (of_int_d A (count_acc acc)),
                    avg_comp_in_flight :=
                      fdiv A (of_int_d A (uint (total_comp acc))) (of_int_d A (count_acc acc)) \<rparr>
           else s)"

subsection \<open>Cycle tracking, growing variant (temp_hw_statistics.cc)\<close>

text \<open>
  The other variant of the class keeps the same members (its snapshot and summary structs
  are the ones above without the members added later), starts with two empty windows and
  appends to the window \<open>hw_buffer_list[current_buffer_index]\<close>.
\<close>

definition HWStatistics_new_legacy :: "'d double_ops \<Rightarrow> bool \<Rightarrow> nat \<Rightarrow> 'd HWStatistics" where
  "HWStatistics_new_legacy A tracking K =
     (HWStatistics_new A tracking K)
       \<lparr> hw_buffer_list := (if tracking then replicate 2 [] else []) \<rparr>"

text \<open>
  Its constructor for any \<open>int\<close> parameter: with cycle tracking, \<open>reserve\<close> with a
  negative size throws \<open>std::length_error\<close>.
\<close>

definition HWStatistics_construct_legacy ::
    "'d double_ops \<Rightarrow> bool \<Rightarrow> int \<Rightarrow> exception + 'd HWStatistics" where
  "HWStatistics_construct_legacy A tracking K =
     (if 0 \<le> K then Inr (HWStatistics_new_legacy A tracking (nat K))
      else if tracking then Inl length_error
      else Inr ((HWStatistics_new_legacy A False 0)\<lparr>stat_buffer_size := K\<rparr>))"

text \<open>\<open>updateBuffer\<close>: go to the next window and allocate one if there is none.\<close>

definition updateBuffer_legacy :: "'d HWStatistics \<Rightarrow> 'd HWStatistics" where
  "updateBuffer_legacy hw =
     (let i = wrap_i32 (current_buffer_index hw + 1);
          bl = (if i \<ge> int (length (hw_buffer_list hw)) then hw_buffer_list hw @ [[]]
                else hw_buffer_list hw)
      in hw\<lparr> current_buffer_index := i, hw_buffer_list := bl,
              hw_buffer := nat i, cycle_buffer := 0,
              rotations := Suc (rotations hw) \<rparr>)"

text \<open>
  \<open>recordCycleStats\<close>: \<open>operator[]\<close> with an index outside the list of windows is
  undefined behaviour (\<open>None\<close>). The capacity test compares in \<open>size_t\<close>, where a negative
  \<open>stat_buffer_size\<close> is \<open>2^64\<close> more.
\<close>

definition recordCycleStats_legacy ::
    "HW_Cycle_Stats \<Rightarrow> 'd HWStatistics \<Rightarrow> 'd HWStatistics option" where
  "recordCycleStats_legacy stats hw =
     (if \<not> cycle_tracking hw then Some hw
      else if 0 \<le> current_buffer_index hw
              \<and> nat (current_buffer_index hw) < length (hw_buffer_list hw)
      then
        let i = nat (current_buffer_index hw);
            w = hw_buffer_list hw ! i @ [stats];
            hw1 = hw\<lparr> current_cycle_stats := stats,
                       hw_buffer_list := (hw_buffer_list hw)[i := w] \<rparr>;
            cap = (if stat_buffer_size hw < 0 then stat_buffer_size hw + 2 ^ 64
                   else stat_buffer_size hw)
        in Some (if int (length w) \<ge> cap then updateBuffer_legacy hw1 else hw1)
      else None)"

fun recordCycleStats_legacy_all ::
    "HW_Cycle_Stats list \<Rightarrow> 'd HWStatistics \<Rightarrow> 'd HWStatistics option" where
  "recordCycleStats_legacy_all [] hw = Some hw"
| "recordCycleStats_legacy_all (s # ss) hw =
     (case recordCycleStats_legacy s hw of
        None \<Rightarrow> None
      | Some hw' \<Rightarrow> recordCycleStats_legacy_all ss hw')"

text \<open>
  \<open>summarizeCycleStats\<close> of this variant: every stored snapshot counts. The loop state is
  the four \<open>int64_t\<close> sums and the summary, whose \<open>total_samples\<close> is the counter.
\<close>

record 'd summarize_state_legacy =
  sum_res :: int
  sum_load :: int
  sum_store :: int
  sum_comp :: int
  result :: "'d CycleStatsSummary"

definition summarize_sample_legacy ::
    "HW_Cycle_Stats \<Rightarrow> 'd summarize_state_legacy \<Rightarrow> 'd summarize_state_legacy" where
  "summarize_sample_legacy stats acc =
     acc\<lparr> sum_res := wrap_i64 (sum_res acc + resInFlight stats),
           sum_load := wrap_i64 (sum_load acc + loadInFlight stats),
           sum_store := wrap_i64 (sum_store acc + storeInFlight stats),
           sum_comp := wrap_i64 (sum_comp acc + compInFlight stats),
           result := (result acc)
             \<lparr> total_samples := wrap_i32 (total_samples (result acc) + 1),
               peak_res_in_flight := max (peak_res_in_flight (result acc)) (resInFlight stats),
               peak_load_in_flight := max (peak_load_in_flight (result acc)) (loadInFlight stats),
               peak_store_in_flight := max (peak_store_in_flight (result acc)) (storeInFlight stats),
               peak_comp_in_flight := max (peak_comp_in_flight (result acc)) (compInFlight stats),
               total_load_raw_stalls :=
                 wrap_i32 (total_load_raw_stalls (result acc) + loadRawStall stats),
               total_comp_fu_stalls :=
                 wrap_i32 (total_comp_fu_stalls (result acc) + compFUStall stats) \<rparr> \<rparr>"

fun summarize_window_legacy ::
    "HW_Cycle_Stats list \<Rightarrow> 'd summarize_state_legacy \<Rightarrow> 'd summarize_state_legacy" where
  "summarize_window_legacy [] acc = acc"
| "summarize_window_legacy (stats # rest) acc =
     summarize_window_legacy rest (summarize_sample_legacy stats acc)"

fun summarize_windows_legacy ::
    "HW_Cycle_Stats list list \<Rightarrow> 'd summarize_state_legacy \<Rightarrow> 'd summarize_state_legacy" where
  "summarize_windows_legacy [] acc = acc"
| "summarize_windows_legacy (w # ws) acc =
     summarize_windows_legacy ws (summarize_window_legacy w acc)"

definition summarizeCycleStats_legacy ::
    "'d double_ops \<Rightarrow> 'd HWStatistics \<Rightarrow> 'd CycleStatsSummary" where
  "summarizeCycleStats_legacy A hw =
     (if \<not> cycle_tracking hw then CycleStatsSummary_new A
      else
        let acc = summarize_windows_legacy (hw_buffer_list hw)
                    \<lparr> sum_res = 0, sum_load = 0, sum_store = 0, sum_comp = 0,
                      result = CycleStatsSummary_new A \<rparr>;
            r = result acc;
            n = of_int_d A (total_samples r)
        in if total_samples r > 0
           then r\<lparr> avg_res_in_flight := fdiv A (of_int_d A (sum_res acc)) n,
                    avg_load_in_flight := fdiv A (of_int_d A (sum_load acc)) n,
                    avg_store_in_flight := fdiv A (of_int_d A (sum_store acc)) n,
                    avg_comp_in_flight := fdiv A (of_int_d A (sum_comp acc)) n \<rparr>
           else r)"

text \<open>A snapshot of cycle \<open>c\<close> with nothing in flight, to evaluate on.\<close>

definition snapshot :: "int \<Rightarrow> HW_Cycle_Stats" where
  "snapshot c = HW_Cycle_Stats_new\<lparr>cycle := c\<rparr>"

subsection \<open>Invariants of the cycle windows\<close>

text \<open>
  The growing variant after \<open>M\<close> snapshots with capacity \<open>K\<close>: the active window is
  number \<open>M div K\<close> and holds \<open>M mod K\<close> snapshots, the windows behind it are empty, the
  windows have been rotated \<open>M div K\<close> times and hold \<open>M\<close> snapshots together.
\<close>

definition legacy_inv :: "nat \<Rightarrow> nat \<Rightarrow> 'd HWStatistics \<Rightarrow> bool" where
  "legacy_inv K M hw \<longleftrightarrow>
     cycle_tracking hw \<and> stat_buffer_size hw = int K \<and>
     current_buffer_index hw = int (M div K) \<and>
     M div K < length (hw_buffer_list hw) \<and>
     length (hw_buffer_list hw ! (M div K)) = M mod K \<and>
     (\<forall>j. M div K < j \<and> j < length (hw_buffer_list hw) \<longrightarrow> hw_buffer_list hw ! j = []) \<and>
     rotations hw = M div K \<and>
     sum_list (map length (hw_buffer_list hw)) = M"

text \<open>
  The ring variant after the snapshots \<open>snaps\<close> with capacity \<open>K\<close>: two windows of \<open>K\<close>
  slots, which hold the snapshots followed by default ones as long as nothing has been
  overwritten; the cursor and the number of rotations follow from the number recorded.
\<close>

definition ring_inv :: "nat \<Rightarrow> HW_Cycle_Stats list \<Rightarrow> 'd HWStatistics \<Rightarrow> bool" where
  "ring_inv K snaps hw \<longleftrightarrow>
     cycle_tracking hw \<and>
     (\<exists>w0 w1. hw_buffer_list hw = [w0, w1] \<and> length w0 = K \<and> length w1 = K \<and>
        (length snaps \<le> 2 * K \<longrightarrow>
           w0 @ w1 = snaps @ replicate (2 * K - length snaps) HW_Cycle_Stats_new)) \<and>
     hw_buffer hw = (length snaps div K) mod 2 \<and>
     cycle_buffer hw = length snaps mod K \<and>
     rotations hw = length snaps div K"


section \<open>Properties of SimpleMemory\<close>

subsection \<open>Word arithmetic without wrap-around\<close>

lemma unat_of_nat_len64: "n < 2 ^ 64 \<Longrightarrow> unat (of_nat n :: u64) = n"
  by (simp add: unat_of_nat)

lemma unat_add_no_wrap: "unat (x::u64) + unat y < 2 ^ 64 \<Longrightarrow> unat (x + y) = unat x + unat y"
  using unat_add_lem [of x y] by simp

subsection \<open>A rejected request has no side effect\<close>

lemma recvFunctional_rejected:
  "range_guard_rejects m req \<Longrightarrow> recvFunctional m req = Inr (m, req\<lparr>success := False\<rparr>)"
  by (simp add: recvFunctional_def)

lemma recvTimingRequest_rejected:
  "range_guard_rejects m req \<Longrightarrow>
   recvTimingRequest m req = Inr (m, req\<lparr>completed := True, success := True\<rparr>, True)"
  by (simp add: recvTimingRequest_def recvFunctional_rejected)

subsection \<open>Where the responder's range does not wrap, the guard is the range check\<close>

lemma guard_accepts_no_wrap:
  assumes lo: "unat (base m) \<le> unat (addr req)"
    and hi: "unat (addr req) + unat (size_req req) \<le> unat (base m) + length (storage m)"
    and nw: "unat (base m) + length (storage m) < 2 ^ 64"
  shows "\<not> range_guard_rejects m req"
proof -
  have S: "unat (of_nat (length (storage m)) :: u64) = length (storage m)"
    using nw by (simp add: unat_of_nat_len64)
  have b: "unat (base m + of_nat (length (storage m))) = unat (base m) + length (storage m)"
    using nw S by (simp add: unat_add_no_wrap)
  have a: "unat (addr req + size_req req) = unat (addr req) + unat (size_req req)"
    using hi nw by (simp add: unat_add_no_wrap)
  show ?thesis
    using lo hi a b by (simp add: range_guard_rejects_def word_less_nat_alt)
qed

lemma write_then_read_roundtrip_no_wrap:
  assumes lo: "unat (base m) \<le> unat a"
    and hi: "unat a + length bytes \<le> unat (base m) + length (storage m)"
    and nw: "unat (base m) + length (storage m) < 2 ^ 64"
  shows "\<exists>m' r. write_then_read m a bytes = Inr (m', r) \<and> data r = bytes \<and> success r"
proof -
  let ?w = "write_req a bytes"
  let ?r = "read_req a (length bytes)"
  let ?off = "unat a - unat (base m)"
  let ?n = "length bytes"
  let ?st' = "take ?off (storage m) @ bytes @ drop (?off + ?n) (storage m)"
  have n: "unat (of_nat ?n :: u64) = ?n"
    using hi nw by (simp add: unat_of_nat_len64)
  have off: "unat (a - base m) = ?off"
    using lo by (simp add: unat_sub word_le_nat_alt)
  have fits: "?off + ?n \<le> length (storage m)"
    using lo hi by simp
  have gw: "\<not> range_guard_rejects m ?w"
    using lo hi nw n
    by (intro guard_accepts_no_wrap) (simp_all add: write_req_def MemoryRequest_new_def)
  have w: "recvFunctional m ?w = Inr (m\<lparr>storage := ?st'\<rparr>, ?w\<lparr>success := True\<rparr>)"
    using gw n off fits
    by (simp add: recvFunctional_def Let_def isRead_def isWrite_def write_req_def
        MemoryRequest_new_def)
  have len: "length ?st' = length (storage m)"
    using fits by simp
  have gr: "\<not> range_guard_rejects (m\<lparr>storage := ?st'\<rparr>) ?r"
    using lo hi nw n len
    by (intro guard_accepts_no_wrap) (simp_all add: read_req_def MemoryRequest_new_def)
  have tk: "take ?n (drop ?off ?st') = bytes"
    using fits by simp
  have r: "recvFunctional (m\<lparr>storage := ?st'\<rparr>) ?r
           = Inr (m\<lparr>storage := ?st'\<rparr>, ?r\<lparr>data := bytes, success := True\<rparr>)"
    using gr n off len fits tk
    by (simp add: recvFunctional_def Let_def isRead_def read_req_def MemoryRequest_new_def)
  show ?thesis
    by (simp add: write_then_read_def w r)
qed

subsection \<open>Claims on SimpleMemory\<close>

text \<open>
  C1. The claim: every request whose byte range is not wholly inside the responder's range
  gets \<open>success = false\<close> from \<open>recvFunctional\<close> and from \<open>recvTimingRequest\<close>, with storage
  and data buffer untouched. Evaluated on a 4-byte memory at base 0 and a 4-byte read at
  address 8: the range is outside, storage and buffer stay as they were, but
  \<open>recvTimingRequest\<close> overwrites the flag and hands the request back with
  \<open>success = true\<close>.
\<close>

theorem recvTimingRequest_out_of_range_reports_success:
  "\<not> wholly_contained (SimpleMemory_new 0 4) (MemoryRequest_new 1 Read 8 4) \<and>
   recvFunctional (SimpleMemory_new 0 4) (MemoryRequest_new 1 Read 8 4)
     = Inr (SimpleMemory_new 0 4, (MemoryRequest_new 1 Read 8 4)\<lparr>success := False\<rparr>) \<and>
   recvTimingRequest (SimpleMemory_new 0 4) (MemoryRequest_new 1 Read 8 4)
     = Inr (SimpleMemory_new 0 4,
            (MemoryRequest_new 1 Read 8 4)\<lparr>completed := True, success := True\<rparr>, True)"
  by (simp add: recvTimingRequest_def recvFunctional_def range_guard_rejects_def
      wholly_contained_def SimpleMemory_new_def MemoryRequest_new_def)

text \<open>
  C6. The claim: on every SimpleMemory, a functional write of \<open>bytes\<close> at an in-range
  address followed by a functional read of the same length returns \<open>bytes\<close>. Evaluated on
  the 16-byte memory that ends at the top of the address space (base \<open>2^64 - 16\<close>), writing
  four bytes at its first address: the request is in range, yet the guard compares with
  the wrapped sum \<open>base + size = 0\<close>, rejects both the write and the read, and the read
  buffer stays empty.
\<close>

theorem write_then_read_top_of_address_space:
  "wholly_contained (SimpleMemory_new 18446744073709551600 16)
     (write_req 18446744073709551600 [1, 2, 3, 4]) \<and>
   write_then_read (SimpleMemory_new 18446744073709551600 16) 18446744073709551600 [1, 2, 3, 4]
     = Inr (SimpleMemory_new 18446744073709551600 16,
            (read_req 18446744073709551600 4)\<lparr>success := False\<rparr>) \<and>
   data ((read_req 18446744073709551600 4)\<lparr>success := False\<rparr>) = []"
  by (simp add: write_then_read_def write_req_def read_req_def recvFunctional_def
      range_guard_rejects_def wholly_contained_def SimpleMemory_new_def MemoryRequest_new_def
      isRead_def isWrite_def resize_def)

text \<open>
  C10. The guard of \<open>recvFunctional\<close> adds \<open>addr + size\<close> in wrapping 64-bit arithmetic:
  on any non-empty memory at base 0, a read or write of 2 bytes at address \<open>2^64 - 1\<close>
  has \<open>addr \<ge> base\<close> and a byte range that leaves the memory, yet the guard does not
  reject it, and the copy that follows indexes the storage past its end.
\<close>

theorem recvFunctional_guard_wraps:
  assumes "base m = 0" and "1 \<le> length (storage m)" and "length (storage m) < 2 ^ 64"
    and "addr req = 2 ^ 64 - 1" and "size_req req = 2" and "isRead req \<or> isWrite req"
  shows "base m \<le> addr req \<and> \<not> wholly_contained m req \<and>
         \<not> range_guard_rejects m req \<and> recvFunctional m req = Inl OutOfBounds"
proof -
  have S: "unat (of_nat (length (storage m)) :: u64) = length (storage m)"
    using assms(3) by (simp add: unat_of_nat_len64)
  have ne: "storage m \<noteq> []"
    using assms(2) by auto
  have g: "\<not> range_guard_rejects m req"
    using assms(1,4,5) S ne by (simp add: range_guard_rejects_def word_less_nat_alt not_less)
  have wc: "\<not> wholly_contained m req"
    using assms(1,3,4,5) by (simp add: wholly_contained_def)
  have "recvFunctional m req = Inl OutOfBounds"
    using g assms by (auto simp: recvFunctional_def Let_def)
  with g wc assms(1) show ?thesis by simp
qed

theorem recvFunctional_guard_wraps_witness:
  "base (SimpleMemory_new 0 16) \<le> addr (MemoryRequest_new 7 Read (2 ^ 64 - 1) 2) \<and>
   \<not> wholly_contained (SimpleMemory_new 0 16) (MemoryRequest_new 7 Read (2 ^ 64 - 1) 2) \<and>
   \<not> range_guard_rejects (SimpleMemory_new 0 16) (MemoryRequest_new 7 Read (2 ^ 64 - 1) 2) \<and>
   recvFunctional (SimpleMemory_new 0 16) (MemoryRequest_new 7 Read (2 ^ 64 - 1) 2)
     = Inl OutOfBounds"
  using recvFunctional_guard_wraps
    [of "SimpleMemory_new 0 16" "MemoryRequest_new 7 Read (2 ^ 64 - 1) 2"]
  by (simp add: SimpleMemory_new_def MemoryRequest_new_def isRead_def)


section \<open>Properties of the stall breakdown\<close>

subsection \<open>Streaks\<close>

lemma recordStalls_streak:
  "current_stall_streak (recordStalls cs sb) = current_stall_streak sb + of_nat (length cs)"
  by (induction cs arbitrary: sb) (simp_all add: recordStall_def Let_def)

lemma recordStalls_stall_events:
  "stall_events (recordStalls cs sb) = stall_events sb"
  by (induction cs arbitrary: sb) (simp_all add: recordStall_def Let_def)

lemma recordStalls_max_ge_streak:
  "cs \<noteq> [] \<or> current_stall_streak sb \<le> max_consecutive_stalls sb \<Longrightarrow>
   current_stall_streak (recordStalls cs sb) \<le> max_consecutive_stalls (recordStalls cs sb)"
proof (induction cs arbitrary: sb)
  case Nil
  then show ?case by simp
next
  case (Cons c cs)
  have "current_stall_streak (recordStall c sb) \<le> max_consecutive_stalls (recordStall c sb)"
    by (simp add: recordStall_def Let_def)
  then show ?case
    using Cons.IH [of "recordStall c sb"] by simp
qed

lemma recordStallCauses_stall_breakdown:
  "stall_breakdown (summary (recordStallCauses cs hw))
     = recordStalls cs (stall_breakdown (summary hw))"
  by (induction cs arbitrary: hw) (simp_all add: recordStallCause_def)

lemma stall_breakdown_HWStatistics_new:
  "stall_breakdown (summary (HWStatistics_new A tr K)) = StallBreakdown_new"
  by (simp add: HWStatistics_new_def SummaryStats_new_def)

text \<open>
  C7. From a state whose current streak is zero, \<open>N\<close> consecutive \<open>recordStallCause\<close>
  calls (\<open>1 \<le> N\<close>, and \<open>N\<close> a number the 64-bit counters can hold) followed by one
  \<open>recordNoStall\<close> leave \<open>max_consecutive_stalls \<ge> N\<close> and \<open>stall_events\<close> one higher;
  \<open>recordNoStall\<close> alone leaves \<open>stall_events\<close> as it was.
\<close>

theorem stall_streak_then_no_stall:
  assumes "current_stall_streak (stall_breakdown (summary hw)) = 0"
  shows "stall_events (stall_breakdown (summary (HWStatistics_recordNoStall hw)))
           = stall_events (stall_breakdown (summary hw)) \<and>
         (1 \<le> length cs \<and> length cs < 2 ^ 64 \<longrightarrow>
            length cs \<le> unat (max_consecutive_stalls
               (stall_breakdown (summary (HWStatistics_recordNoStall (recordStallCauses cs hw))))) \<and>
            stall_events (stall_breakdown (summary (HWStatistics_recordNoStall (recordStallCauses cs hw))))
              = stall_events (stall_breakdown (summary hw)) + 1)"
proof -
  let ?sb = "stall_breakdown (summary hw)"
  let ?sb' = "recordStalls cs ?sb"
  have first: "stall_events (stall_breakdown (summary (HWStatistics_recordNoStall hw)))
                 = stall_events ?sb"
    using assms by (simp add: HWStatistics_recordNoStall_def recordNoStall_def)
  have second: "length cs \<le> unat (max_consecutive_stalls (recordNoStall ?sb')) \<and>
      stall_events (recordNoStall ?sb') = stall_events ?sb + 1"
    if n: "1 \<le> length cs" "length cs < 2 ^ 64"
  proof -
    have streak: "current_stall_streak ?sb' = of_nat (length cs)"
      using assms by (simp add: recordStalls_streak)
    have u: "unat (current_stall_streak ?sb') = length cs"
      using n(2) by (simp add: streak unat_of_nat_len64)
    have ne: "cs \<noteq> []"
      using n(1) by auto
    have pos: "0 < current_stall_streak ?sb'"
      using u ne by (simp add: word_less_nat_alt)
    from ne have "current_stall_streak ?sb' \<le> max_consecutive_stalls ?sb'"
      by (simp add: recordStalls_max_ge_streak)
    then have "length cs \<le> unat (max_consecutive_stalls ?sb')"
      using u by (simp add: word_le_nat_alt)
    then show ?thesis
      using pos by (simp add: recordNoStall_def recordStalls_stall_events)
  qed
  show ?thesis
    using first second
    by (simp add: HWStatistics_recordNoStall_def recordStallCauses_stall_breakdown)
qed

theorem stall_streak_then_no_stall_witness:
  "current_stall_streak (stall_breakdown (summary (HWStatistics_new exact_ops False 0))) = 0 \<and>
   (1::nat) \<le> 3 \<and> (3::nat) < 2 ^ 64 \<and>
   stall_events (stall_breakdown (summary
       (HWStatistics_recordNoStall (HWStatistics_new exact_ops False 0)))) = 0 \<and>
   3 \<le> unat (max_consecutive_stalls (stall_breakdown (summary
       (HWStatistics_recordNoStall
          (recordStallCauses [MEMORY_LATENCY, RAW_HAZARD, MEMORY_LATENCY]
             (HWStatistics_new exact_ops False 0)))))) \<and>
   stall_events (stall_breakdown (summary
       (HWStatistics_recordNoStall
          (recordStallCauses [MEMORY_LATENCY, RAW_HAZARD, MEMORY_LATENCY]
             (HWStatistics_new exact_ops False 0))))) = 1"
proof -
  have h: "current_stall_streak (stall_breakdown (summary (HWStatistics_new exact_ops False 0))) = 0"
    by (simp add: stall_breakdown_HWStatistics_new StallBreakdown_new_def)
  have e: "stall_events (stall_breakdown (summary (HWStatistics_new exact_ops False 0))) = 0"
    by (simp add: stall_breakdown_HWStatistics_new StallBreakdown_new_def)
  show ?thesis
    using stall_streak_then_no_stall
      [OF h, of "[MEMORY_LATENCY, RAW_HAZARD, MEMORY_LATENCY]"] h e
    by simp
qed

subsection \<open>The dominant cause\<close>

lemma dominant_loop_char:
  assumes "sorted_wrt (<) is"
  shows "(dominant_loop bc is d m = d \<and> (\<forall>i\<in>set is. bc ! i \<le> m)) \<or>
         (\<exists>k\<in>set is. dominant_loop bc is d m = StallCause_of_int k \<and> m < bc ! k \<and>
             (\<forall>i\<in>set is. bc ! i \<le> bc ! k) \<and> (\<forall>i\<in>set is. i < k \<longrightarrow> bc ! i < bc ! k))"
  using assms
proof (induction "is" arbitrary: d m)
  case Nil
  then show ?case by simp
next
  case (Cons j js)
  have srt: "sorted_wrt (<) js" and lt: "\<forall>i\<in>set js. j < i"
    using Cons.prems by simp_all
  show ?case
  proof (cases "m < bc ! j")
    case True
    from Cons.IH [OF srt, of "StallCause_of_int j" "bc ! j"]
    show ?thesis
    proof
      assume a: "dominant_loop bc js (StallCause_of_int j) (bc ! j) = StallCause_of_int j \<and>
                 (\<forall>i\<in>set js. bc ! i \<le> bc ! j)"
      have "dominant_loop bc (j # js) d m = StallCause_of_int j \<and> m < bc ! j \<and>
            (\<forall>i\<in>set (j # js). bc ! i \<le> bc ! j) \<and> (\<forall>i\<in>set (j # js). i < j \<longrightarrow> bc ! i < bc ! j)"
        using a True lt by auto
      then show ?thesis by - (rule disjI2, rule bexI [of _ j], auto)
    next
      assume "\<exists>k\<in>set js. dominant_loop bc js (StallCause_of_int j) (bc ! j) = StallCause_of_int k \<and>
                 bc ! j < bc ! k \<and> (\<forall>i\<in>set js. bc ! i \<le> bc ! k) \<and>
                 (\<forall>i\<in>set js. i < k \<longrightarrow> bc ! i < bc ! k)"
      then obtain k where k: "k \<in> set js"
          "dominant_loop bc js (StallCause_of_int j) (bc ! j) = StallCause_of_int k"
          "bc ! j < bc ! k" "\<forall>i\<in>set js. bc ! i \<le> bc ! k"
          "\<forall>i\<in>set js. i < k \<longrightarrow> bc ! i < bc ! k"
        by blast
      have "dominant_loop bc (j # js) d m = StallCause_of_int k \<and> m < bc ! k \<and>
            (\<forall>i\<in>set (j # js). bc ! i \<le> bc ! k) \<and> (\<forall>i\<in>set (j # js). i < k \<longrightarrow> bc ! i < bc ! k)"
        using k True by auto
      then show ?thesis using k(1) by - (rule disjI2, rule bexI [of _ k], auto)
    qed
  next
    case False
    from Cons.IH [OF srt, of d m]
    show ?thesis
    proof
      assume "dominant_loop bc js d m = d \<and> (\<forall>i\<in>set js. bc ! i \<le> m)"
      then show ?thesis using False by auto
    next
      assume "\<exists>k\<in>set js. dominant_loop bc js d m = StallCause_of_int k \<and>
                 m < bc ! k \<and> (\<forall>i\<in>set js. bc ! i \<le> bc ! k) \<and>
                 (\<forall>i\<in>set js. i < k \<longrightarrow> bc ! i < bc ! k)"
      then obtain k where k: "k \<in> set js"
          "dominant_loop bc js d m = StallCause_of_int k"
          "m < bc ! k" "\<forall>i\<in>set js. bc ! i \<le> bc ! k"
          "\<forall>i\<in>set js. i < k \<longrightarrow> bc ! i < bc ! k"
        by blast
      have "dominant_loop bc (j # js) d m = StallCause_of_int k \<and> m < bc ! k \<and>
            (\<forall>i\<in>set (j # js). bc ! i \<le> bc ! k) \<and> (\<forall>i\<in>set (j # js). i < k \<longrightarrow> bc ! i < bc ! k)"
        using k False by auto
      then show ?thesis using k(1) by - (rule disjI2, rule bexI [of _ k], auto)
    qed
  qed
qed

lemma StallCause_of_int_NONE: "1 \<le> k \<Longrightarrow> StallCause_of_int k \<noteq> NONE"
  by (simp add: StallCause_of_int_def)


text \<open>
  C8, as the code has it. When some cause other than \<open>NONE\<close> has a positive count,
  \<open>getDominantCause\<close> returns the cause other than \<open>NONE\<close> with the highest count, the
  lowest-valued one among equals; when every such count is zero it returns \<open>NONE\<close>, and
  \<open>getDominantBottleneck\<close> returns \<open>none\<close>. After
  10 \<open>MEMORY_LATENCY\<close> and 3 \<open>FU_CONTENTION\<close> stalls on a fresh breakdown the dominant
  cause is \<open>MEMORY_LATENCY\<close> and the bottleneck is \<open>memory_latency\<close>.
\<close>

theorem getDominantCause_highest_count:
  assumes "length (by_cause sb) = STALL_CAUSE_COUNT"
  shows "(if \<forall>i. 1 \<le> i \<and> i < STALL_CAUSE_COUNT \<longrightarrow> by_cause sb ! i = 0
          then getDominantCause sb = NONE \<and> getDominantBottleneck sb = ''none''
          else \<exists>k. 1 \<le> k \<and> k < STALL_CAUSE_COUNT \<and>
                 getDominantCause sb = StallCause_of_int k \<and>
                 getDominantCause sb \<noteq> NONE \<and>
                 (\<forall>i. 1 \<le> i \<and> i < STALL_CAUSE_COUNT \<longrightarrow> by_cause sb ! i \<le> by_cause sb ! k) \<and>
                 (\<forall>i. 1 \<le> i \<and> i < k \<longrightarrow> by_cause sb ! i < by_cause sb ! k)) \<and>
         getDominantCause
           (recordStalls (replicate 10 MEMORY_LATENCY @ replicate 3 FU_CONTENTION) StallBreakdown_new)
           = MEMORY_LATENCY \<and>
         getDominantBottleneck
           (recordStalls (replicate 10 MEMORY_LATENCY @ replicate 3 FU_CONTENTION) StallBreakdown_new)
           = ''memory_latency''"
proof -
  let ?bc = "by_cause sb"
  let ?is = "[1 ..< STALL_CAUSE_COUNT]"
  have srt: "sorted_wrt (<) ?is"
    by simp
  have general: "(if \<forall>i. 1 \<le> i \<and> i < STALL_CAUSE_COUNT \<longrightarrow> ?bc ! i = 0
          then getDominantCause sb = NONE \<and> getDominantBottleneck sb = ''none''
          else \<exists>k. 1 \<le> k \<and> k < STALL_CAUSE_COUNT \<and>
                 getDominantCause sb = StallCause_of_int k \<and>
                 getDominantCause sb \<noteq> NONE \<and>
                 (\<forall>i. 1 \<le> i \<and> i < STALL_CAUSE_COUNT \<longrightarrow> ?bc ! i \<le> ?bc ! k) \<and>
                 (\<forall>i. 1 \<le> i \<and> i < k \<longrightarrow> ?bc ! i < ?bc ! k))"
    using dominant_loop_char [OF srt, of ?bc NONE 0]
  proof
    assume a: "dominant_loop ?bc ?is NONE 0 = NONE \<and> (\<forall>i\<in>set ?is. ?bc ! i \<le> 0)"
    then have "\<forall>i. 1 \<le> i \<and> i < STALL_CAUSE_COUNT \<longrightarrow> ?bc ! i = 0"
      by simp
    with a show ?thesis
      by (simp add: getDominantBottleneck_def getDominantCause_def)
  next
    assume "\<exists>k\<in>set ?is. dominant_loop ?bc ?is NONE 0 = StallCause_of_int k \<and> 0 < ?bc ! k \<and>
              (\<forall>i\<in>set ?is. ?bc ! i \<le> ?bc ! k) \<and> (\<forall>i\<in>set ?is. i < k \<longrightarrow> ?bc ! i < ?bc ! k)"
    then obtain k where k: "k \<in> set ?is" "dominant_loop ?bc ?is NONE 0 = StallCause_of_int k"
        "0 < ?bc ! k" "\<forall>i\<in>set ?is. ?bc ! i \<le> ?bc ! k" "\<forall>i\<in>set ?is. i < k \<longrightarrow> ?bc ! i < ?bc ! k"
      by blast
    have kr: "1 \<le> k" "k < STALL_CAUSE_COUNT"
      using k(1) by simp_all
    have nz: "\<not> (\<forall>i. 1 \<le> i \<and> i < STALL_CAUSE_COUNT \<longrightarrow> ?bc ! i = 0)"
      using k(3) kr by auto
    have all: "\<forall>i. 1 \<le> i \<and> i < STALL_CAUSE_COUNT \<longrightarrow> ?bc ! i \<le> ?bc ! k"
      using k(4) by simp
    have low: "\<forall>i. 1 \<le> i \<and> i < k \<longrightarrow> ?bc ! i < ?bc ! k"
      using k(5) kr by simp
    have dc: "getDominantCause sb = StallCause_of_int k"
      using k(2) by (simp add: getDominantCause_def)
    have dn: "getDominantCause sb \<noteq> NONE"
      using dc kr(1) by (simp add: StallCause_of_int_NONE)
    have ex: "\<exists>k. 1 \<le> k \<and> k < STALL_CAUSE_COUNT \<and>
                 getDominantCause sb = StallCause_of_int k \<and>
                 getDominantCause sb \<noteq> NONE \<and>
                 (\<forall>i. 1 \<le> i \<and> i < STALL_CAUSE_COUNT \<longrightarrow> ?bc ! i \<le> ?bc ! k) \<and>
                 (\<forall>i. 1 \<le> i \<and> i < k \<longrightarrow> ?bc ! i < ?bc ! k)"
      by (intro exI [of _ k] conjI) (rule kr dc dn all low)+
    show ?thesis
      by (subst if_not_P [OF nz]) (rule ex)
  qed
  have s1: "getDominantCause
           (recordStalls (replicate 10 MEMORY_LATENCY @ replicate 3 FU_CONTENTION) StallBreakdown_new)
           = MEMORY_LATENCY"
    by code_simp
  have s2: "getDominantBottleneck
           (recordStalls (replicate 10 MEMORY_LATENCY @ replicate 3 FU_CONTENTION) StallBreakdown_new)
           = ''memory_latency''"
    by code_simp
  show ?thesis
    by (rule conjI [OF general conjI [OF s1 s2]])
qed

theorem getDominantCause_highest_count_witness:
  "length (by_cause (recordStalls [MEMORY_LATENCY, FU_CONTENTION, MEMORY_LATENCY] StallBreakdown_new))
     = STALL_CAUSE_COUNT \<and>
   by_cause (recordStalls [MEMORY_LATENCY, FU_CONTENTION, MEMORY_LATENCY] StallBreakdown_new) ! 1 = 2 \<and>
   getDominantCause (recordStalls [MEMORY_LATENCY, FU_CONTENTION, MEMORY_LATENCY] StallBreakdown_new)
     \<noteq> NONE"
proof -
  let ?sb = "recordStalls [MEMORY_LATENCY, FU_CONTENTION, MEMORY_LATENCY] StallBreakdown_new"
  have len: "length (by_cause ?sb) = STALL_CAUSE_COUNT"
    by code_simp
  have one: "by_cause ?sb ! 1 = 2"
    by code_simp
  have nz: "\<not> (\<forall>i. 1 \<le> i \<and> i < STALL_CAUSE_COUNT \<longrightarrow> by_cause ?sb ! i = 0)"
    using one by (auto simp: STALL_CAUSE_COUNT_def intro!: exI [of _ 1])
  from getDominantCause_highest_count [OF len]
  have "if \<forall>i. 1 \<le> i \<and> i < STALL_CAUSE_COUNT \<longrightarrow> by_cause ?sb ! i = 0
        then getDominantCause ?sb = NONE \<and> getDominantBottleneck ?sb = ''none''
        else \<exists>k. 1 \<le> k \<and> k < STALL_CAUSE_COUNT \<and>
               getDominantCause ?sb = StallCause_of_int k \<and>
               getDominantCause ?sb \<noteq> NONE \<and>
               (\<forall>i. 1 \<le> i \<and> i < STALL_CAUSE_COUNT \<longrightarrow> by_cause ?sb ! i \<le> by_cause ?sb ! k) \<and>
               (\<forall>i. 1 \<le> i \<and> i < k \<longrightarrow> by_cause ?sb ! i < by_cause ?sb ! k)"
    by (rule conjunct1)
  then have "getDominantCause ?sb \<noteq> NONE"
    by (subst (asm) if_not_P [OF nz]) blast
  with len one show ?thesis
    by simp
qed

text \<open>
  C8 as stated promises a cause other than \<open>NONE\<close> in every state, the lowest-valued
  one on a tie. On a fresh breakdown all nine counts tie at zero, and the result is
  \<open>NONE\<close>, not \<open>MEMORY_LATENCY\<close>.
\<close>

theorem getDominantCause_no_stalls_counterexample:
  "getDominantCause StallBreakdown_new = NONE \<and>
   getDominantCause StallBreakdown_new \<noteq> MEMORY_LATENCY \<and>
   by_cause StallBreakdown_new = [0, 0, 0, 0, 0, 0, 0, 0, 0, 0]"
  by code_simp


section \<open>Properties of the power model\<close>

lemma calculatePowerWithActivity_energy:
  "total_energy_nj (power_stats (summary (calculatePowerWithActivity A hw)))
     = fdiv A (fmul A (total_power (power_stats (summary (calculatePowerWithActivity A hw))))
                      (of_int_d A (wrap_i32 (total_cycles (performance (summary hw))
                                             * clock_period_ns (performance (summary hw))))))
              (fconst A 1000000)"
  by (simp add: calculatePowerWithActivity_def Let_def case_prod_beta)

text \<open>
  C4, as the code has it. \<open>calculatePowerWithActivity\<close> and the \<open>collectPowerStats\<close> of
  temp_hw_statistics_enhanced.cc give \<open>fu_total = fu_leakage + fu_dynamic\<close> and
  \<open>total_power = fu_total + reg_total + spm_total + cache_total\<close>; the \<open>collectPowerStats\<close>
  of temp_hw_statistics.cc gives \<open>fu_total = fu_leakage + fu_dynamic\<close> and
  \<open>total_power = fu_total + reg_total\<close>, with \<open>acc_spm_total = total_power + spm_total\<close> and
  \<open>acc_cache_total = total_power + cache_total\<close>; and \<open>calculatePowerWithActivity\<close> run
  again on its own result changes nothing. The sums are those of the double arithmetic,
  whatever its rounding.
\<close>

theorem power_totals_consistent:
  "(fu_total (power_stats (summary (calculatePowerWithActivity A hw)))
      = fadd A (fu_leakage (power_stats (summary (calculatePowerWithActivity A hw))))
               (fu_dynamic (power_stats (summary (calculatePowerWithActivity A hw)))) \<and>
    total_power (power_stats (summary (calculatePowerWithActivity A hw)))
      = fadd A (fadd A (fadd A (fu_total (power_stats (summary (calculatePowerWithActivity A hw))))
                               (reg_total (power_stats (summary (calculatePowerWithActivity A hw)))))
                       (spm_total (power_stats (summary (calculatePowerWithActivity A hw)))))
               (cache_total (power_stats (summary (calculatePowerWithActivity A hw))))) \<and>
   (fu_total (power_stats (summary (collectPowerStats A fl fd rl rd sl sr sw cl cr cw hw)))
      = fadd A (fu_leakage (power_stats (summary (collectPowerStats A fl fd rl rd sl sr sw cl cr cw hw))))
               (fu_dynamic (power_stats (summary (collectPowerStats A fl fd rl rd sl sr sw cl cr cw hw)))) \<and>
    total_power (power_stats (summary (collectPowerStats A fl fd rl rd sl sr sw cl cr cw hw)))
      = fadd A (fadd A (fadd A
          (fu_total (power_stats (summary (collectPowerStats A fl fd rl rd sl sr sw cl cr cw hw))))
          (reg_total (power_stats (summary (collectPowerStats A fl fd rl rd sl sr sw cl cr cw hw)))))
          (spm_total (power_stats (summary (collectPowerStats A fl fd rl rd sl sr sw cl cr cw hw)))))
          (cache_total (power_stats (summary (collectPowerStats A fl fd rl rd sl sr sw cl cr cw hw))))) \<and>
   (fu_total (power_stats (summary (collectPowerStats_legacy A fl fd rl rd sl sr sw cl cr cw hw)))
      = fadd A (fu_leakage (power_stats (summary (collectPowerStats_legacy A fl fd rl rd sl sr sw cl cr cw hw))))
               (fu_dynamic (power_stats (summary (collectPowerStats_legacy A fl fd rl rd sl sr sw cl cr cw hw)))) \<and>
    total_power (power_stats (summary (collectPowerStats_legacy A fl fd rl rd sl sr sw cl cr cw hw)))
      = fadd A (fu_total (power_stats (summary (collectPowerStats_legacy A fl fd rl rd sl sr sw cl cr cw hw))))
               (reg_total (power_stats (summary (collectPowerStats_legacy A fl fd rl rd sl sr sw cl cr cw hw)))) \<and>
    acc_spm_total (power_stats (summary (collectPowerStats_legacy A fl fd rl rd sl sr sw cl cr cw hw)))
      = fadd A (total_power (power_stats (summary (collectPowerStats_legacy A fl fd rl rd sl sr sw cl cr cw hw))))
               (spm_total (power_stats (summary (collectPowerStats_legacy A fl fd rl rd sl sr sw cl cr cw hw)))) \<and>
    acc_cache_total (power_stats (summary (collectPowerStats_legacy A fl fd rl rd sl sr sw cl cr cw hw)))
      = fadd A (total_power (power_stats (summary (collectPowerStats_legacy A fl fd rl rd sl sr sw cl cr cw hw))))
               (cache_total (power_stats (summary (collectPowerStats_legacy A fl fd rl rd sl sr sw cl cr cw hw))))) \<and>
   calculatePowerWithActivity A (calculatePowerWithActivity A hw) = calculatePowerWithActivity A hw"
proof -
  have calc: "fu_total (power_stats (summary (calculatePowerWithActivity A hw)))
      = fadd A (fu_leakage (power_stats (summary (calculatePowerWithActivity A hw))))
               (fu_dynamic (power_stats (summary (calculatePowerWithActivity A hw)))) \<and>
    total_power (power_stats (summary (calculatePowerWithActivity A hw)))
      = fadd A (fadd A (fadd A (fu_total (power_stats (summary (calculatePowerWithActivity A hw))))
                               (reg_total (power_stats (summary (calculatePowerWithActivity A hw)))))
                       (spm_total (power_stats (summary (calculatePowerWithActivity A hw)))))
               (cache_total (power_stats (summary (calculatePowerWithActivity A hw))))"
    by (simp add: calculatePowerWithActivity_def Let_def case_prod_beta)
  have idem: "calculatePowerWithActivity A (calculatePowerWithActivity A hw)
                = calculatePowerWithActivity A hw"
    by (simp add: calculatePowerWithActivity_def Let_def case_prod_beta)
  show ?thesis
    by (intro conjI calc [THEN conjunct1] calc [THEN conjunct2] idem)
       (simp_all add: collectPowerStats_def collectPowerStats_legacy_def Let_def)
qed

text \<open>
  C4 as stated also wants \<open>total_power\<close> to be the sum of the four block totals after the
  \<open>collectPowerStats\<close> of temp_hw_statistics.cc. With every argument 1 the block totals
  are 2, 2, 3 and 3, and \<open>total_power\<close> is 4.
\<close>

theorem collectPowerStats_legacy_total_counterexample:
  "total_power (power_stats (summary
      (collectPowerStats_legacy exact_ops 1 1 1 1 1 1 1 1 1 1 (HWStatistics_new exact_ops False 0)))) = 4 \<and>
   fu_total (power_stats (summary
      (collectPowerStats_legacy exact_ops 1 1 1 1 1 1 1 1 1 1 (HWStatistics_new exact_ops False 0))))
   + reg_total (power_stats (summary
      (collectPowerStats_legacy exact_ops 1 1 1 1 1 1 1 1 1 1 (HWStatistics_new exact_ops False 0))))
   + spm_total (power_stats (summary
      (collectPowerStats_legacy exact_ops 1 1 1 1 1 1 1 1 1 1 (HWStatistics_new exact_ops False 0))))
   + cache_total (power_stats (summary
      (collectPowerStats_legacy exact_ops 1 1 1 1 1 1 1 1 1 1 (HWStatistics_new exact_ops False 0)))) = 10"
  by (simp add: collectPowerStats_legacy_def Let_def exact_ops_def)

text \<open>
  C5. The claim: \<open>total_energy_nj = total_power * runtime_ns / 10^3\<close>, a milliwatt times a
  nanosecond being \<open>10^-3\<close> nJ. Evaluated on \<open>energy_example\<close>: the power is 1 mW, the run
  time \<open>10^6\<close> ns, so the energy is 1000 nJ; \<open>calculatePowerWithActivity\<close> divides by
  \<open>10^6\<close> and stores 1.
\<close>

theorem total_energy_nj_divides_by_million:
  "total_power (power_stats (summary (calculatePowerWithActivity exact_ops energy_example))) = 1 \<and>
   total_cycles (performance (summary energy_example))
     * clock_period_ns (performance (summary energy_example)) = 1000000 \<and>
   total_energy_nj (power_stats (summary (calculatePowerWithActivity exact_ops energy_example))) = 1 \<and>
   total_energy_nj (power_stats (summary (calculatePowerWithActivity exact_ops energy_example)))
     \<noteq> 1 * 1000000 / 10 ^ 3"
  by code_simp


section \<open>Properties of the coefficient loader\<close>

lemma loadFromFile_missing_file:
  "loadFromFile A None cfg = Inr (setDefaults A cfg, False)"
  by (simp add: loadFromFile_def)

lemma load_line_without_colon:
  "find_colon line = None \<Longrightarrow> load_line A line cfg = Inr cfg"
  by (simp add: load_line_def)

text \<open>
  C9. The claim: \<open>loadFromFile\<close> returns normally on every file, missing or malformed,
  and malformed content falls back to the defaults. A file that cannot be opened does
  give the defaults and \<open>false\<close>. Evaluated on a file whose \<open>voltage\<close> line holds the
  word \<open>high\<close>: \<open>std::stod\<close> throws \<open>std::invalid_argument\<close>, and the exception leaves
  \<open>loadFromFile\<close>.
\<close>

theorem loadFromFile_malformed_voltage_throws:
  "loadFromFile exact_ops None (PowerAreaCoefficients_new exact_ops)
     = Inr (setDefaults exact_ops (PowerAreaCoefficients_new exact_ops), False) \<and>
   loadFromFile exact_ops
       (Some [''{'', ''  technology_node: 7nm,'', ''  voltage: high,'', ''}''])
       (PowerAreaCoefficients_new exact_ops)
     = Inl invalid_argument"
proof -
  have thrown: "loadFromFile exact_ops
       (Some [''{'', ''  technology_node: 7nm,'', ''  voltage: high,'', ''}''])
       (PowerAreaCoefficients_new exact_ops)
     = Inl invalid_argument"
    by code_simp
  show ?thesis
    by (simp add: loadFromFile_missing_file thrown)
qed


section \<open>Properties of the memory port adapter\<close>

lemma sendTimingRequest_stalled:
  "stalled st \<Longrightarrow> sendTimingRequest dsend now r st = (False, st)"
  by (simp add: sendTimingRequest_def)

lemma sendTimingRequest_accepted:
  assumes "fst (sendTimingRequest dsend now r st)"
  shows "\<not> stalled st \<and> \<not> stalled (snd (sendTimingRequest dsend now r st)) \<and>
         retryQueue (snd (sendTimingRequest dsend now r st)) = retryQueue st \<and>
         dispatched (snd (sendTimingRequest dsend now r st)) = dispatched st @ [(r, True)]"
  using assms
  by (auto simp: sendTimingRequest_def Let_def case_prod_beta split: if_splits)

lemma sendTimingRequest_refused:
  assumes "\<not> stalled st" and "\<not> fst (sendTimingRequest dsend now r st)"
  shows "stalled (snd (sendTimingRequest dsend now r st)) \<and>
         retryQueue (snd (sendTimingRequest dsend now r st)) = retryQueue st @ [r] \<and>
         dispatched (snd (sendTimingRequest dsend now r st)) = dispatched st @ [(r, False)]"
  using assms
  by (auto simp: sendTimingRequest_def Let_def case_prod_beta split: if_splits)

lemma retry_loop_outcome:
  "\<not> stalled st \<Longrightarrow> \<exists>n. retry_outcome st (retry_loop dsend now st) n"
proof (induction dsend now st rule: retry_loop.induct)
  case (1 dsend now st)
  show ?case
  proof (cases "retryQueue st")
    case Nil
    then have "retry_loop dsend now st = st"
      by (simp add: retry_loop.simps [of dsend now st])
    then have "retry_outcome st (retry_loop dsend now st) 0"
      using Nil "1.prems" by (simp add: retry_outcome_def)
    then show ?thesis ..
  next
    case (Cons r rest)
    let ?st0 = "st\<lparr>retryQueue := rest\<rparr>"
    let ?res = "sendTimingRequest dsend now r ?st0"
    have ns: "\<not> stalled ?st0"
      using "1.prems" by simp
    show ?thesis
    proof (cases "fst ?res")
      case True
      have step: "retry_loop dsend now st = retry_loop dsend now (snd ?res)"
        using Cons True by (simp add: retry_loop.simps [of dsend now st] Let_def)
      from sendTimingRequest_accepted [OF True]
      have a: "\<not> stalled (snd ?res)" "retryQueue (snd ?res) = rest"
          "dispatched (snd ?res) = dispatched st @ [(r, True)]"
        by simp_all
      from "1.IH" [OF Cons refl True a(1)]
      obtain n where n: "retry_outcome (snd ?res) (retry_loop dsend now (snd ?res)) n"
        by blast
      have "retry_outcome st (retry_loop dsend now st) (Suc n)"
        using n a Cons by (simp add: retry_outcome_def step)
      then show ?thesis ..
    next
      case False
      have step: "retry_loop dsend now st = snd ?res"
        using Cons False by (simp add: retry_loop.simps [of dsend now st] Let_def)
      from sendTimingRequest_refused [OF ns False]
      have a: "stalled (snd ?res)" "retryQueue (snd ?res) = rest @ [r]"
          "dispatched (snd ?res) = dispatched st @ [(r, False)]"
        by simp_all
      have "retry_outcome st (retry_loop dsend now st) 0"
        using a Cons by (simp add: retry_outcome_def step)
      then show ?thesis ..
    qed
  qed
qed


lemma handleRetry_outcome:
  "\<exists>n. retry_outcome st (handleRetry dsend now st) n"
proof -
  have "\<exists>n. retry_outcome (st\<lparr>stalled := False\<rparr>) (retry_loop dsend now (st\<lparr>stalled := False\<rparr>)) n"
    by (rule retry_loop_outcome) simp
  then obtain n
    where "retry_outcome (st\<lparr>stalled := False\<rparr>) (retry_loop dsend now (st\<lparr>stalled := False\<rparr>)) n"
    by blast
  then have "retry_outcome st (handleRetry dsend now st) n"
    by (simp add: handleRetry_def retry_outcome_def)
  then show ?thesis ..
qed

lemma queue_inv_send:
  assumes "queue_inv st"
  shows "queue_inv (snd (sendTimingRequest dsend now r st))"
proof (cases "stalled st")
  case True
  then show ?thesis using assms by (simp add: sendTimingRequest_stalled)
next
  case False
  show ?thesis
  proof (cases "fst (sendTimingRequest dsend now r st)")
    case True
    from sendTimingRequest_accepted [OF True] assms False show ?thesis
      by (simp add: queue_inv_def)
  next
    case f: False
    from sendTimingRequest_refused [OF False f] assms False show ?thesis
      by (simp add: queue_inv_def)
  qed
qed

lemma queue_inv_retry:
  assumes "queue_inv st"
  shows "queue_inv (handleRetry dsend now st)"
proof -
  obtain n where n: "retry_outcome st (handleRetry dsend now st) n"
    using handleRetry_outcome by blast
  have le: "length (retryQueue st) \<le> 1"
    using assms by (simp add: queue_inv_def split: if_splits)
  show ?thesis
  proof (cases "n < length (retryQueue st)")
    case True
    then have "stalled (handleRetry dsend now st)"
      and m: "mset (retryQueue (handleRetry dsend now st)) = mset (drop n (retryQueue st))"
      using n by (simp_all add: retry_outcome_def)
    moreover have "length (retryQueue (handleRetry dsend now st)) = length (drop n (retryQueue st))"
      using m by (metis size_mset)
    ultimately show ?thesis
      using True le by (simp add: queue_inv_def)
  next
    case False
    then show ?thesis
      using n by (simp add: retry_outcome_def queue_inv_def)
  qed
qed

lemma queue_inv_response:
  "queue_inv st \<Longrightarrow> queue_inv (handleTimingResponse now k resp err st)"
  by (simp add: handleTimingResponse_def queue_inv_def Let_def split: option.splits)

lemma queue_inv_step:
  "queue_inv st \<Longrightarrow> queue_inv (port_step dsend e st)"
  by (cases e) (simp_all add: queue_inv_send queue_inv_retry queue_inv_response)

lemma queue_inv_run:
  "queue_inv st \<Longrightarrow> queue_inv (run_port dsend es st)"
  by (induction es arbitrary: st) (simp_all add: queue_inv_step)

lemma queue_inv_new: "queue_inv (Gem5MemoryPort_new h d)"
  by (simp add: queue_inv_def Gem5MemoryPort_new_def)

lemma handleRetry_outcome_ordered:
  assumes "queue_inv st"
  shows "\<exists>n. retry_outcome st (handleRetry dsend now st) n \<and>
             retryQueue (handleRetry dsend now st) = drop n (retryQueue st)"
proof -
  obtain n where n: "retry_outcome st (handleRetry dsend now st) n"
    using handleRetry_outcome by blast
  have le: "length (retryQueue st) \<le> 1"
    using assms by (simp add: queue_inv_def split: if_splits)
  have "retryQueue (handleRetry dsend now st) = drop n (retryQueue st)"
  proof (cases "n < length (retryQueue st)")
    case True
    then have n0: "n = 0" using le by simp
    from True le obtain r where q: "retryQueue st = [r]"
      by (cases "retryQueue st") auto
    have "mset (retryQueue (handleRetry dsend now st)) = mset [r]"
      using n True q n0 by (simp add: retry_outcome_def)
    then have "retryQueue (handleRetry dsend now st) = [r]"
      by (metis mset_single_iff_right mset.simps(1) mset.simps(2) add_mset_eq_single)
    then show ?thesis using q n0 by simp
  next
    case False
    then show ?thesis using n by (simp add: retry_outcome_def)
  qed
  with n show ?thesis by blast
qed

text \<open>
  C2, as the code has it. A retry notification clears the stall and hands the queued
  requests downstream in queue order, stopping at the first that is refused again; none
  is dropped: each is accepted downstream or still queued afterwards. A request submitted
  while the port is stalled is turned away (\<open>false\<close>, port unchanged) and is not queued,
  so on a port driven through its operations the retry queue never holds more than one
  request, and what remains queued after a retry is the rest of the queue in its order.
\<close>

theorem handleRetry_fifo_no_drop:
  "(\<exists>n. retry_outcome st (handleRetry dsend now st) n) \<and>
   length (retryQueue (run_port dsend es (Gem5MemoryPort_new h d))) \<le> 1 \<and>
   (\<exists>n. retry_outcome (run_port dsend es (Gem5MemoryPort_new h d))
             (handleRetry dsend now (run_port dsend es (Gem5MemoryPort_new h d))) n \<and>
        retryQueue (handleRetry dsend now (run_port dsend es (Gem5MemoryPort_new h d)))
          = drop n (retryQueue (run_port dsend es (Gem5MemoryPort_new h d)))) \<and>
   sendTimingRequest dsend now r (st\<lparr>stalled := True\<rparr>) = (False, st\<lparr>stalled := True\<rparr>)"
proof -
  have inv: "queue_inv (run_port dsend es (Gem5MemoryPort_new h d))"
    by (rule queue_inv_run [OF queue_inv_new])
  then have le: "length (retryQueue (run_port dsend es (Gem5MemoryPort_new h d))) \<le> 1"
    by (simp add: queue_inv_def split: if_splits)
  have st: "sendTimingRequest dsend now r (st\<lparr>stalled := True\<rparr>) = (False, st\<lparr>stalled := True\<rparr>)"
    by (simp add: sendTimingRequest_stalled)
  show ?thesis
    by (intro conjI handleRetry_outcome le handleRetry_outcome_ordered [OF inv] st)
qed

text \<open>
  C2 as stated has \<open>A\<close>, \<open>B\<close>, \<open>C\<close> queued while the port is stalled and a retry that
  hands them downstream in that order. Evaluated on a fresh port whose downstream refuses
  the first packet: the request at address 9 is refused and queued, the submissions of
  \<open>A\<close>, \<open>B\<close>, \<open>C\<close> (addresses 1, 2, 3) return \<open>false\<close> and leave the queue at that one
  request, and the retry hands down request 9 only: \<open>A\<close>, \<open>B\<close>, \<open>C\<close> never reach the
  downstream.
\<close>

theorem submitted_while_stalled_counterexample:
  "fst (sendTimingRequest scripted 0 1
      (run_port scripted [Submit 0 9] (Gem5MemoryPort_new abc_heap [False]))) = False \<and>
   fst (sendTimingRequest scripted 0 2
      (run_port scripted [Submit 0 9, Submit 0 1] (Gem5MemoryPort_new abc_heap [False]))) = False \<and>
   fst (sendTimingRequest scripted 0 3
      (run_port scripted [Submit 0 9, Submit 0 1, Submit 0 2]
         (Gem5MemoryPort_new abc_heap [False]))) = False \<and>
   stalled (run_port scripted [Submit 0 9, Submit 0 1, Submit 0 2, Submit 0 3]
      (Gem5MemoryPort_new abc_heap [False])) = True \<and>
   retryQueue (run_port scripted [Submit 0 9, Submit 0 1, Submit 0 2, Submit 0 3]
      (Gem5MemoryPort_new abc_heap [False])) = [9] \<and>
   dispatched (run_port scripted [Submit 0 9, Submit 0 1, Submit 0 2, Submit 0 3, RetryNotification 0]
      (Gem5MemoryPort_new abc_heap [False])) = [(9, False), (9, True)] \<and>
   retryQueue (run_port scripted [Submit 0 9, Submit 0 1, Submit 0 2, Submit 0 3, RetryNotification 0]
      (Gem5MemoryPort_new abc_heap [False])) = [] \<and>
   stalled (run_port scripted [Submit 0 9, Submit 0 1, Submit 0 2, Submit 0 3, RetryNotification 0]
      (Gem5MemoryPort_new abc_heap [False])) = False"
  by code_simp

section \<open>Properties of cycle tracking\<close>

subsection \<open>The growing variant\<close>

lemma sum_list_length_update:
  "i < length xs \<Longrightarrow>
   sum_list (map length (xs[i := xs ! i @ [s]])) = Suc (sum_list (map length xs))"
proof (induction xs arbitrary: i)
  case Nil
  then show ?case by simp
next
  case (Cons x xs)
  then show ?case by (cases i) simp_all
qed

lemma wrap_i32_id: "- (2 ^ 31) \<le> x \<Longrightarrow> x < 2 ^ 31 \<Longrightarrow> wrap_i32 x = x"
  by (simp add: wrap_i32_def)

lemma wrap_i32_less: "wrap_i32 x < 2 ^ 31"
  by (simp add: wrap_i32_def)

lemma legacy_inv_step:
  assumes inv: "legacy_inv K M hw" and K: "1 \<le> K" and small: "Suc M div K < 2 ^ 31"
  shows "\<exists>hw'. recordCycleStats_legacy s hw = Some hw' \<and> legacy_inv K (Suc M) hw'"
proof -
  let ?i = "M div K"
  let ?bl = "hw_buffer_list hw"
  let ?w = "?bl ! ?i @ [s]"
  let ?hw1 = "hw\<lparr>current_cycle_stats := s, hw_buffer_list := ?bl[?i := ?w]\<rparr>"
  from inv have tr: "cycle_tracking hw" and sz: "stat_buffer_size hw = int K"
    and idx: "current_buffer_index hw = int ?i" and valid: "?i < length ?bl"
    and len: "length (?bl ! ?i) = M mod K"
    and empty: "\<forall>j. ?i < j \<and> j < length ?bl \<longrightarrow> ?bl ! j = []"
    and rot: "rotations hw = ?i" and total: "sum_list (map length ?bl) = M"
    by (simp_all add: legacy_inv_def)
  have lw: "length ?w = Suc (M mod K)"
    using len by simp
  have tot1: "sum_list (map length (?bl[?i := ?w])) = Suc M"
    using valid total by (simp add: sum_list_length_update)
  show ?thesis
  proof (cases "Suc (M mod K) = K")
    case True
    have d: "Suc M div K = Suc ?i" and m: "Suc M mod K = 0"
      using True by (simp_all add: div_Suc mod_Suc)
    have w: "wrap_i32 (int ?i + 1) = int (Suc ?i)"
      using small d by (simp add: wrap_i32_id)
    let ?bl' = "(if int (Suc ?i) \<ge> int (length ?bl) then ?bl[?i := ?w] @ [[]] else ?bl[?i := ?w])"
    have r: "recordCycleStats_legacy s hw = Some (updateBuffer_legacy ?hw1)"
      using tr sz idx valid True lw by (simp add: recordCycleStats_legacy_def Let_def)
    have bl': "hw_buffer_list (updateBuffer_legacy ?hw1) = ?bl'"
      using idx w by (simp add: updateBuffer_legacy_def Let_def)
    have v': "Suc ?i < length ?bl'"
      using valid by auto
    have e': "\<forall>j. Suc ?i \<le> j \<and> j < length ?bl' \<longrightarrow> ?bl' ! j = []"
      using valid empty by (auto simp: nth_append)
    have t': "sum_list (map length ?bl') = Suc M"
      using tot1 by simp
    have "legacy_inv K (Suc M) (updateBuffer_legacy ?hw1)"
      unfolding legacy_inv_def d m bl'
      using tr sz idx rot v' e' t' w
      by (simp add: updateBuffer_legacy_def Let_def)
    with r show ?thesis by blast
  next
    case False
    have lt: "Suc (M mod K) < K"
      using False K by (metis Suc_lessI mod_less_divisor One_nat_def Suc_le_lessD)
    have d: "Suc M div K = ?i" and m: "Suc M mod K = Suc (M mod K)"
      using False lt by (simp_all add: div_Suc mod_Suc)
    have r: "recordCycleStats_legacy s hw = Some ?hw1"
      using tr sz idx valid lt lw by (simp add: recordCycleStats_legacy_def Let_def)
    have "legacy_inv K (Suc M) ?hw1"
      unfolding legacy_inv_def d m
      using tr sz idx rot valid empty tot1 lw by simp
    with r show ?thesis by blast
  qed
qed

lemma legacy_inv_all:
  assumes "legacy_inv K M hw" and "1 \<le> K" and "(M + length snaps) div K < 2 ^ 31"
  shows "\<exists>hw'. recordCycleStats_legacy_all snaps hw = Some hw' \<and> legacy_inv K (M + length snaps) hw'"
  using assms
proof (induction snaps arbitrary: M hw)
  case Nil
  then show ?case by simp
next
  case (Cons s snaps)
  have "Suc M div K \<le> (M + length (s # snaps)) div K"
    by (intro div_le_mono) simp
  then have small: "Suc M div K < 2 ^ 31"
    using Cons.prems(3) by simp
  from legacy_inv_step [OF Cons.prems(1,2) small]
  obtain hw1 where h: "recordCycleStats_legacy s hw = Some hw1" "legacy_inv K (Suc M) hw1"
    by blast
  have "(Suc M + length snaps) div K < 2 ^ 31"
    using Cons.prems(3) by simp
  from Cons.IH [OF h(2) Cons.prems(2) this] h(1) show ?case
    by simp
qed

lemma legacy_inv_new:
  "1 \<le> K \<Longrightarrow> legacy_inv K 0 (HWStatistics_new_legacy A True K)"
  by (simp add: legacy_inv_def HWStatistics_new_legacy_def HWStatistics_new_def numeral_2_eq_2)


lemma summarize_window_legacy_samples:
  "0 \<le> total_samples (result acc) \<Longrightarrow>
   total_samples (result acc) + int (length w) < 2 ^ 31 \<Longrightarrow>
   total_samples (result (summarize_window_legacy w acc))
     = total_samples (result acc) + int (length w)"
proof (induction w arbitrary: acc)
  case Nil
  then show ?case by simp
next
  case (Cons x w)
  have one: "total_samples (result (summarize_sample_legacy x acc)) = total_samples (result acc) + 1"
    using Cons.prems by (simp add: summarize_sample_legacy_def wrap_i32_id)
  have "total_samples (result (summarize_window_legacy w (summarize_sample_legacy x acc)))
          = total_samples (result (summarize_sample_legacy x acc)) + int (length w)"
    using Cons.prems one by (intro Cons.IH) simp_all
  then show ?case
    using one by simp
qed

lemma summarize_windows_legacy_samples:
  "0 \<le> total_samples (result acc) \<Longrightarrow>
   total_samples (result acc) + int (sum_list (map length ws)) < 2 ^ 31 \<Longrightarrow>
   total_samples (result (summarize_windows_legacy ws acc))
     = total_samples (result acc) + int (sum_list (map length ws))"
proof (induction ws arbitrary: acc)
  case Nil
  then show ?case by simp
next
  case (Cons w ws)
  have one: "total_samples (result (summarize_window_legacy w acc))
               = total_samples (result acc) + int (length w)"
    using Cons.prems by (intro summarize_window_legacy_samples) simp_all
  have "total_samples (result (summarize_windows_legacy ws (summarize_window_legacy w acc)))
          = total_samples (result (summarize_window_legacy w acc)) + int (sum_list (map length ws))"
    using Cons.prems one by (intro Cons.IH) simp_all
  then show ?case
    using one by simp
qed

lemma summarizeCycleStats_legacy_samples:
  "cycle_tracking hw \<Longrightarrow> sum_list (map length (hw_buffer_list hw)) < 2 ^ 31 \<Longrightarrow>
   total_samples (summarizeCycleStats_legacy A hw) = int (sum_list (map length (hw_buffer_list hw)))"
  by (simp add: summarizeCycleStats_legacy_def Let_def summarize_windows_legacy_samples
      CycleStatsSummary_new_def)

lemma summarize_window_legacy_bound:
  "total_samples (result acc) < 2 ^ 31 \<Longrightarrow>
   total_samples (result (summarize_window_legacy w acc)) < 2 ^ 31"
proof (induction w arbitrary: acc)
  case Nil
  then show ?case by simp
next
  case (Cons x w)
  have "total_samples (result (summarize_sample_legacy x acc))
          = wrap_i32 (total_samples (result acc) + 1)"
    by (simp add: summarize_sample_legacy_def)
  then have "total_samples (result (summarize_sample_legacy x acc)) < 2 ^ 31"
    by (simp only: wrap_i32_less)
  from Cons.IH [OF this] show ?case
    by simp
qed

lemma summarize_windows_legacy_bound:
  "total_samples (result acc) < 2 ^ 31 \<Longrightarrow>
   total_samples (result (summarize_windows_legacy ws acc)) < 2 ^ 31"
proof (induction ws arbitrary: acc)
  case Nil
  then show ?case by simp
next
  case (Cons w ws)
  from Cons.IH [OF summarize_window_legacy_bound [OF Cons.prems]] show ?case
    by simp
qed

lemma summarizeCycleStats_legacy_bound:
  "total_samples (summarizeCycleStats_legacy A hw) < 2 ^ 31"
proof (cases "cycle_tracking hw")
  case True
  let ?acc0 = "\<lparr> sum_res = 0, sum_load = 0, sum_store = 0, sum_comp = 0,
                  result = CycleStatsSummary_new A \<rparr> :: 'a summarize_state_legacy"
  have "total_samples (result ?acc0) < 2 ^ 31"
    by (simp add: CycleStatsSummary_new_def)
  from summarize_windows_legacy_bound [OF this, of "hw_buffer_list hw"] True show ?thesis
    by (simp add: summarizeCycleStats_legacy_def Let_def)
next
  case False
  then show ?thesis
    by (simp add: summarizeCycleStats_legacy_def Let_def CycleStatsSummary_new_def)
qed

subsection \<open>The ring variant\<close>

lemma pad_update:
  "n \<ge> 1 \<Longrightarrow> (xs @ replicate n d)[length xs := s] = (xs @ [s]) @ replicate (n - 1) d"
  by (cases n) (simp_all add: list_update_append)

lemma ring_inv_step:
  assumes inv: "ring_inv K snaps hw" and K: "1 \<le> K"
  shows "\<exists>hw'. recordCycleStats s hw = Some hw' \<and> ring_inv K (snaps @ [s]) hw'"
proof -
  let ?M = "length snaps"
  let ?d = "HW_Cycle_Stats_new"
  from inv obtain w0 w1 where tr: "cycle_tracking hw"
    and bl: "hw_buffer_list hw = [w0, w1]" and l0: "length w0 = K" and l1: "length w1 = K"
    and cont: "?M \<le> 2 * K \<longrightarrow> w0 @ w1 = snaps @ replicate (2 * K - ?M) ?d"
    and hb: "hw_buffer hw = (?M div K) mod 2" and cb: "cycle_buffer hw = ?M mod K"
    and rot: "rotations hw = ?M div K"
    by (auto simp: ring_inv_def)
  let ?hb = "hw_buffer hw"
  let ?cb = "cycle_buffer hw"
  have hb2: "?hb < 2"
    using hb by simp
  have cbK: "?cb < K"
    using cb K by simp
  have lw: "length ([w0, w1] ! ?hb) = K"
    using hb2 l0 l1 by (cases "?hb") (simp_all add: less_Suc_eq)
  let ?w0' = "if ?hb = 0 then w0[?cb := s] else w0"
  let ?w1' = "if ?hb = 0 then w1 else w1[?cb := s]"
  have upd: "[w0, w1][?hb := ([w0, w1] ! ?hb)[?cb := s]] = [?w0', ?w1']"
    using hb2 by (cases "?hb") (auto simp: less_Suc_eq)
  let ?hw1 = "hw\<lparr>hw_buffer_list := [?w0', ?w1'], cycle_buffer := Suc ?cb\<rparr>"
  let ?hw' = "if Suc ?cb = K then updateBuffer ?hw1 else ?hw1"
  have r: "recordCycleStats s hw = Some ?hw'"
    using tr bl hb2 cbK lw upd by (simp add: recordCycleStats_def Let_def)
  have cont': "w0 @ w1 = snaps @ replicate (2 * K - ?M) ?d \<Longrightarrow> Suc ?M \<le> 2 * K \<Longrightarrow>
       ?w0' @ ?w1' = (snaps @ [s]) @ replicate (2 * K - Suc ?M) ?d" 
  proof -
    assume c: "w0 @ w1 = snaps @ replicate (2 * K - ?M) ?d" and le: "Suc ?M \<le> 2 * K"
    have pos: "?hb * K + ?cb = ?M"
    proof (cases "?M < K")
      case True
      then show ?thesis using hb cb by simp
    next
      case False
      then obtain r where M: "?M = K + r" and rK: "r < K"
        using le by (metis add_diff_inverse_nat add_less_cancel_left mult_2 less_eq_Suc_le)
      have "?M div K = 1" "?M mod K = r"
        using M rK K by simp_all
      then show ?thesis using hb cb M by simp
    qed
    have "?w0' @ ?w1' = (w0 @ w1)[?M := s]"
    proof (cases "?hb = 0")
      case True
      then show ?thesis using pos cbK l0 by (simp add: list_update_append)
    next
      case False
      then have h1: "?hb = 1" using hb2 by simp
      then have M: "?M = K + ?cb" using pos by simp
      show ?thesis
        unfolding M using h1 l0 by (simp add: list_update_append)
    qed
    also have "\<dots> = (snaps @ replicate (2 * K - ?M) ?d)[?M := s]"
      by (simp only: c)
    also have "\<dots> = (snaps @ [s]) @ replicate (2 * K - ?M - 1) ?d"
      using le by (intro pad_update) simp
    finally show ?thesis by simp
  qed
  have l0': "length ?w0' = K" and l1': "length ?w1' = K"
    using l0 l1 by simp_all
  have contS: "length (snaps @ [s]) \<le> 2 * K \<longrightarrow>
      ?w0' @ ?w1' = (snaps @ [s]) @ replicate (2 * K - length (snaps @ [s])) ?d"
    using cont cont' by simp
  have "ring_inv K (snaps @ [s]) ?hw'"
  proof (cases "Suc ?cb = K")
    case True
    have d: "Suc ?M div K = Suc (?M div K)" and m: "Suc ?M mod K = 0"
      using True cb by (simp_all add: div_Suc mod_Suc)
    have f1: "cycle_tracking (updateBuffer ?hw1)"
      and f2: "hw_buffer_list (updateBuffer ?hw1) = [?w0', ?w1']"
      and f3: "cycle_buffer (updateBuffer ?hw1) = 0"
      and f4: "rotations (updateBuffer ?hw1) = Suc (?M div K)"
      using tr rot by (simp_all add: updateBuffer_def)
    have f5: "hw_buffer (updateBuffer ?hw1) = Suc (?M div K) mod 2"
      using hb by (simp add: updateBuffer_def mod_Suc)
    have "ring_inv K (snaps @ [s]) (updateBuffer ?hw1)"
      unfolding ring_inv_def f2 f3 f4 f5
      using f1 l0' l1' contS d m by simp
    then show ?thesis
      using True by simp
  next
    case False
    have lt: "Suc (?M mod K) < K"
      using False cb cbK by simp
    have d: "Suc ?M div K = ?M div K" and m: "Suc ?M mod K = Suc (?M mod K)"
      using False cb lt by (simp_all add: div_Suc mod_Suc)
    show ?thesis
      unfolding ring_inv_def
      using False tr l0' l1' contS hb cb rot d m
      by simp
  qed
  with r show ?thesis by blast
qed


lemma ring_inv_all:
  assumes "ring_inv K done hw" and "1 \<le> K"
  shows "\<exists>hw'. recordCycleStats_all snaps hw = Some hw' \<and> ring_inv K (done @ snaps) hw'"
  using assms
proof (induction snaps arbitrary: "done" hw)
  case Nil
  then show ?case by simp
next
  case (Cons s snaps)
  from ring_inv_step [OF Cons.prems]
  obtain hw1 where h: "recordCycleStats s hw = Some hw1" "ring_inv K (done @ [s]) hw1"
    by blast
  from Cons.IH [OF h(2) Cons.prems(2)] h(1) show ?case
    by simp
qed

lemma ring_inv_new:
  "1 \<le> K \<Longrightarrow> ring_inv K [] (HWStatistics_new A True K)"
  by (simp add: ring_inv_def HWStatistics_new_def numeral_2_eq_2 replicate_add [symmetric] mult_2)

lemma summarize_sample_count:
  "0 \<le> count_acc acc \<Longrightarrow> count_acc acc + 1 < 2 ^ 31 \<Longrightarrow>
   count_acc (summarize_sample s acc) = count_acc acc + 1"
  by (simp add: summarize_sample_def wrap_i32_id)

lemma summarize_window_padding:
  "0 < count_acc acc \<or> n = 0 \<Longrightarrow>
   summarize_window (replicate n HW_Cycle_Stats_new) acc = acc"
  by (cases n) (auto simp: HW_Cycle_Stats_new_def)

lemma summarize_window_count:
  assumes "\<forall>s\<in>set xs. cycle s \<noteq> 0" and "0 \<le> count_acc acc"
    and "0 < count_acc acc + int (length xs) \<or> n = 0"
    and "count_acc acc + int (length xs) < 2 ^ 31"
  shows "count_acc (summarize_window (xs @ replicate n HW_Cycle_Stats_new) acc)
           = count_acc acc + int (length xs)"
  using assms
proof (induction xs arbitrary: acc)
  case Nil
  then show ?case by (simp add: summarize_window_padding)
next
  case (Cons x xs)
  have one: "count_acc (summarize_sample x acc) = count_acc acc + 1"
    using Cons.prems by (intro summarize_sample_count) simp_all
  have "count_acc (summarize_window (xs @ replicate n HW_Cycle_Stats_new) (summarize_sample x acc))
          = count_acc (summarize_sample x acc) + int (length xs)"
    using Cons.prems one by (intro Cons.IH) auto
  then show ?case
    using Cons.prems one by simp
qed

text \<open>The first snapshot of a summary is counted whatever its cycle number.\<close>

lemma summarize_window_count_first:
  assumes "\<forall>s\<in>set xs. cycle s \<noteq> 0" and "count_acc acc = 0"
    and "1 + int (length xs) < 2 ^ 31"
  shows "count_acc (summarize_window ((x # xs) @ replicate n HW_Cycle_Stats_new) acc)
           = 1 + int (length xs)"
proof -
  have one: "count_acc (summarize_sample x acc) = 1"
    using assms(2,3) summarize_sample_count [of acc x] by simp
  have "count_acc (summarize_window (xs @ replicate n HW_Cycle_Stats_new) (summarize_sample x acc))
          = count_acc (summarize_sample x acc) + int (length xs)"
    using assms one by (intro summarize_window_count) simp_all
  then show ?thesis
    using assms(2) one by simp
qed

lemma ring_samples:
  assumes inv: "ring_inv K snaps hw" and K: "1 \<le> K"
    and M1: "1 \<le> length snaps" and M2: "length snaps \<le> 2 * K"
    and M3: "length snaps < 2 ^ 31"
    and nz: "\<forall>s\<in>set (tl snaps). cycle s \<noteq> 0"
  shows "total_samples (summarizeCycleStats A hw) = int (length snaps)"
proof -
  let ?d = "HW_Cycle_Stats_new"
  let ?M = "length snaps"
  from M1 obtain x rest where snaps: "snaps = x # rest"
    by (cases snaps) auto
  from K obtain K' where K': "K = Suc K'"
    by (cases K) auto
  from inv M2 obtain w0 w1 where tr: "cycle_tracking hw"
    and bl: "hw_buffer_list hw = [w0, w1]" and l0: "length w0 = K" and l1: "length w1 = K"
    and cont: "w0 @ w1 = snaps @ replicate (2 * K - ?M) ?d"
    by (auto simp: ring_inv_def)
  have w0: "w0 = (x # take K' rest) @ replicate (min (K - ?M) (2 * K - ?M)) ?d"
  proof -
    have "w0 = take K (w0 @ w1)" using l0 by simp
    also have "\<dots> = take K (snaps @ replicate (2 * K - ?M) ?d)" by (simp only: cont)
    finally show ?thesis by (simp add: min.commute snaps K')
  qed
  have w1: "w1 = drop K' rest @ replicate (2 * K - ?M - (K - ?M)) ?d"
  proof -
    have "w1 = drop K (w0 @ w1)" using l0 by simp
    also have "\<dots> = drop K (snaps @ replicate (2 * K - ?M) ?d)" by (simp only: cont)
    finally show ?thesis by (simp add: snaps K')
  qed
  let ?acc0 = "\<lparr> total_res = 0, total_load = 0, total_store = 0, total_comp = 0,
                  count_acc = 0, sum_acc = CycleStatsSummary_new A \<rparr> :: 'a summarize_state"
  let ?acc1 = "summarize_window w0 ?acc0"
  let ?acc2 = "summarize_window w1 ?acc1"
  have nzr: "\<forall>s\<in>set rest. cycle s \<noteq> 0"
    using nz snaps by simp
  have nz0: "\<forall>s\<in>set (take K' rest). cycle s \<noteq> 0"
    using nzr by (meson in_set_takeD)
  have nz1: "\<forall>s\<in>set (drop K' rest). cycle s \<noteq> 0"
    using nzr by (meson in_set_dropD)
  have small: "1 + int (length rest) < 2 ^ 31"
    using M3 snaps by simp
  have "count_acc (summarize_window
            ((x # take K' rest) @ replicate (min (K - ?M) (2 * K - ?M)) ?d) ?acc0)
          = 1 + int (length (take K' rest))"
    by (rule summarize_window_count_first) (use nz0 small in auto)
  then have c1: "count_acc ?acc1 = 1 + int (length (take K' rest))"
    by (subst w0)
  have "count_acc (summarize_window
            (drop K' rest @ replicate (2 * K - ?M - (K - ?M)) ?d) ?acc1)
          = count_acc ?acc1 + int (length (drop K' rest))"
    by (rule summarize_window_count) (use nz1 c1 small in auto)
  then have c2: "count_acc ?acc2 = count_acc ?acc1 + int (length (drop K' rest))"
    by (subst w1)
  have "count_acc ?acc2 = int ?M"
    using c1 c2 snaps by (simp add: min_def)
  then show ?thesis
    using tr bl by (simp add: summarizeCycleStats_def Let_def)
qed


lemma summarize_window_bound:
  "count_acc acc < 2 ^ 31 \<Longrightarrow> count_acc (summarize_window w acc) < 2 ^ 31"
proof (induction w arbitrary: acc)
  case Nil
  then show ?case by simp
next
  case (Cons x w)
  have "count_acc (summarize_sample x acc) = wrap_i32 (count_acc acc + 1)"
    by (simp add: summarize_sample_def)
  then have "count_acc (summarize_sample x acc) < 2 ^ 31"
    by (simp only: wrap_i32_less)
  from Cons.IH [OF this] Cons.prems show ?case
    by simp
qed

lemma summarize_windows_bound:
  "count_acc acc < 2 ^ 31 \<Longrightarrow> count_acc (summarize_windows ws acc) < 2 ^ 31"
proof (induction ws arbitrary: acc)
  case Nil
  then show ?case by simp
next
  case (Cons w ws)
  from Cons.IH [OF summarize_window_bound [OF Cons.prems]] show ?case
    by simp
qed

lemma summarizeCycleStats_bound:
  "total_samples (summarizeCycleStats A hw) < 2 ^ 31"
proof (cases "cycle_tracking hw")
  case True
  let ?acc0 = "\<lparr> total_res = 0, total_load = 0, total_store = 0, total_comp = 0,
                  count_acc = 0, sum_acc = CycleStatsSummary_new A \<rparr> :: 'a summarize_state"
  have "count_acc ?acc0 < 2 ^ 31"
    by simp
  from summarize_windows_bound [OF this, of "hw_buffer_list hw"] True show ?thesis
    by (simp add: summarizeCycleStats_def Let_def)
next
  case False
  then show ?thesis
    by (simp add: summarizeCycleStats_def CycleStatsSummary_new_def)
qed

subsection \<open>The index of the active window at its largest value\<close>

lemma recordCycleStats_legacy_all_append:
  "recordCycleStats_legacy_all (xs @ ys) hw =
     (case recordCycleStats_legacy_all xs hw of
        None \<Rightarrow> None
      | Some hw' \<Rightarrow> recordCycleStats_legacy_all ys hw')"
  by (induction xs arbitrary: hw) (simp_all split: option.split)

lemma legacy_index_overflow:
  assumes inv: "legacy_inv 1 (2 ^ 31 - 1) hw"
  shows "recordCycleStats_legacy_all [s, t] hw = None"
proof -
  let ?i = "2 ^ 31 - 1 :: nat"
  from inv have tr: "cycle_tracking hw" and sz: "stat_buffer_size hw = 1"
    and idx: "current_buffer_index hw = int ?i"
    and lt: "?i < length (hw_buffer_list hw)"
    and len: "length (hw_buffer_list hw ! ?i) = 0"
    by (simp_all add: legacy_inv_def)
  have w: "wrap_i32 (int ?i + 1) = - (2 ^ 31)"
    by (simp add: wrap_i32_def)
  let ?hw1 = "hw\<lparr> current_cycle_stats := s,
                    hw_buffer_list := (hw_buffer_list hw)[?i := hw_buffer_list hw ! ?i @ [s]] \<rparr>"
  have step: "recordCycleStats_legacy s hw = Some (updateBuffer_legacy ?hw1)"
    using tr sz idx lt len by (simp add: recordCycleStats_legacy_def Let_def)
  have neg: "current_buffer_index (updateBuffer_legacy ?hw1) = - (2 ^ 31)"
    using idx w by (simp add: updateBuffer_legacy_def Let_def)
  have tr': "cycle_tracking (updateBuffer_legacy ?hw1)"
    using tr by (simp add: updateBuffer_legacy_def Let_def)
  have "recordCycleStats_legacy t (updateBuffer_legacy ?hw1) = None"
    using tr' neg by (simp add: recordCycleStats_legacy_def)
  then show ?thesis
    using step by simp
qed

subsection \<open>Claim on window rotation\<close>

lemma cycle_snapshot: "cycle (snapshot c) = c"
  by (simp add: snapshot_def)

text \<open>
  C3, as the code has it. Let the capacity \<open>K\<close> be an \<open>int\<close> value of at least 1 and let
  \<open>M\<close> snapshots be recorded with cycle tracking on. Both constructors return. In the
  ring variant recording succeeds and rotates the windows \<open>M div K\<close> times, which is once
  for \<open>K \<ge> 2\<close> and \<open>M = K + 1\<close>; \<open>total_samples\<close> is \<open>M\<close> when \<open>1 \<le> M \<le> 2K\<close>, the \<open>int\<close>
  counter can hold \<open>M\<close>, and no snapshot after the first has cycle number 0. In the
  growing variant, as long as the \<open>int\<close> index of the active window can hold \<open>M div K\<close>,
  recording succeeds and rotates the windows \<open>M div K\<close> times, once for \<open>K \<ge> 2\<close> and
  \<open>M = K + 1\<close>; \<open>total_samples\<close> is \<open>M\<close> when the \<open>int\<close> counter can hold \<open>M\<close>.
\<close>

theorem cycle_windows_rotation_and_samples:
  assumes K: "1 \<le> K" and Kint: "K < 2 ^ 31"
  shows "HWStatistics_construct A True (int K) = Inr (HWStatistics_new A True K) \<and>
         HWStatistics_construct_legacy A True (int K) = Inr (HWStatistics_new_legacy A True K) \<and>
         (\<exists>hr. recordCycleStats_all snaps (HWStatistics_new A True K) = Some hr \<and>
            rotations hr = length snaps div K \<and>
            (2 \<le> K \<and> length snaps = K + 1 \<longrightarrow> rotations hr = 1) \<and>
            (1 \<le> length snaps \<and> length snaps \<le> 2 * K \<and> length snaps < 2 ^ 31 \<and>
             (\<forall>s\<in>set (tl snaps). cycle s \<noteq> 0) \<longrightarrow>
               total_samples (summarizeCycleStats A hr) = int (length snaps))) \<and>
         (length snaps div K < 2 ^ 31 \<longrightarrow>
            (\<exists>hl. recordCycleStats_legacy_all snaps (HWStatistics_new_legacy A True K) = Some hl \<and>
               rotations hl = length snaps div K \<and>
               (2 \<le> K \<and> length snaps = K + 1 \<longrightarrow> rotations hl = 1) \<and>
               (length snaps < 2 ^ 31 \<longrightarrow>
                  total_samples (summarizeCycleStats_legacy A hl) = int (length snaps))))"
proof -
  have one: "2 \<le> K \<Longrightarrow> (K + 1) div K = 1"
    by (simp add: div_Suc mod_Suc)
  have c1: "HWStatistics_construct A True (int K) = Inr (HWStatistics_new A True K)"
    by (simp add: HWStatistics_construct_def)
  have c2: "HWStatistics_construct_legacy A True (int K) = Inr (HWStatistics_new_legacy A True K)"
    by (simp add: HWStatistics_construct_legacy_def)
  from ring_inv_all [OF ring_inv_new [where A = A, OF K] K, where snaps = snaps]
  obtain hr where hr: "recordCycleStats_all snaps (HWStatistics_new A True K) = Some hr"
      "ring_inv K snaps hr"
    by auto
  have rr: "rotations hr = length snaps div K"
    using hr(2) by (simp add: ring_inv_def)
  have sr: "total_samples (summarizeCycleStats A hr) = int (length snaps)"
    if "1 \<le> length snaps" "length snaps \<le> 2 * K" "length snaps < 2 ^ 31"
       "\<forall>s\<in>set (tl snaps). cycle s \<noteq> 0"
    using ring_samples [OF hr(2) K that] .
  have ring: "\<exists>hr. recordCycleStats_all snaps (HWStatistics_new A True K) = Some hr \<and>
            rotations hr = length snaps div K \<and>
            (2 \<le> K \<and> length snaps = K + 1 \<longrightarrow> rotations hr = 1) \<and>
            (1 \<le> length snaps \<and> length snaps \<le> 2 * K \<and> length snaps < 2 ^ 31 \<and>
             (\<forall>s\<in>set (tl snaps). cycle s \<noteq> 0) \<longrightarrow>
               total_samples (summarizeCycleStats A hr) = int (length snaps))"
    using hr(1) rr one sr by (intro exI [of _ hr]) auto
  have growing: "\<exists>hl. recordCycleStats_legacy_all snaps (HWStatistics_new_legacy A True K) = Some hl \<and>
               rotations hl = length snaps div K \<and>
               (2 \<le> K \<and> length snaps = K + 1 \<longrightarrow> rotations hl = 1) \<and>
               (length snaps < 2 ^ 31 \<longrightarrow>
                  total_samples (summarizeCycleStats_legacy A hl) = int (length snaps))"
    if small: "length snaps div K < 2 ^ 31"
  proof -
    have "(0 + length snaps) div K < 2 ^ 31"
      using small by simp
    from legacy_inv_all [OF legacy_inv_new [where A = A, OF K] K this]
    obtain hl where hl:
        "recordCycleStats_legacy_all snaps (HWStatistics_new_legacy A True K) = Some hl"
        "legacy_inv K (length snaps) hl"
      by auto
    have rl: "rotations hl = length snaps div K"
      using hl(2) by (simp add: legacy_inv_def)
    have sl: "total_samples (summarizeCycleStats_legacy A hl) = int (length snaps)"
      if "length snaps < 2 ^ 31"
      using hl(2) that by (simp add: summarizeCycleStats_legacy_samples legacy_inv_def)
    show ?thesis
      using hl(1) rl one sl by (intro exI [of _ hl]) auto
  qed
  show ?thesis
    using c1 c2 ring growing by blast
qed

theorem cycle_windows_rotation_and_samples_witness:
  "(1::nat) \<le> 2 \<and> (2::nat) < 2 ^ 31 \<and>
   HWStatistics_construct exact_ops True 2 = Inr (HWStatistics_new exact_ops True 2) \<and>
   HWStatistics_construct_legacy exact_ops True 2
     = Inr (HWStatistics_new_legacy exact_ops True 2) \<and>
   (\<exists>hr. recordCycleStats_all [snapshot 0, snapshot 1, snapshot 2]
            (HWStatistics_new exact_ops True 2) = Some hr \<and>
      rotations hr = 1 \<and> total_samples (summarizeCycleStats exact_ops hr) = 3) \<and>
   (\<exists>hl. recordCycleStats_legacy_all [snapshot 0, snapshot 1, snapshot 2]
            (HWStatistics_new_legacy exact_ops True 2) = Some hl \<and>
      rotations hl = 1 \<and> total_samples (summarizeCycleStats_legacy exact_ops hl) = 3)"
proof -
  let ?snaps = "[snapshot 0, snapshot 1, snapshot 2]"
  have K: "(1::nat) \<le> 2" and Kint: "(2::nat) < 2 ^ 31"
    by simp_all
  note inst = cycle_windows_rotation_and_samples
    [OF K Kint, where snaps = ?snaps and A = exact_ops]
  have c1: "HWStatistics_construct exact_ops True 2 = Inr (HWStatistics_new exact_ops True 2)"
    using inst by simp
  have c2: "HWStatistics_construct_legacy exact_ops True 2
              = Inr (HWStatistics_new_legacy exact_ops True 2)"
    using inst by simp
  from inst obtain hr where
    r: "recordCycleStats_all ?snaps (HWStatistics_new exact_ops True 2) = Some hr"
       "2 \<le> (2::nat) \<and> length ?snaps = 2 + 1 \<longrightarrow> rotations hr = 1"
       "1 \<le> length ?snaps \<and> length ?snaps \<le> 2 * 2 \<and> length ?snaps < 2 ^ 31 \<and>
          (\<forall>s\<in>set (tl ?snaps). cycle s \<noteq> 0)
          \<longrightarrow> total_samples (summarizeCycleStats exact_ops hr) = int (length ?snaps)"
    by blast
  have small: "length ?snaps div 2 < 2 ^ 31"
    by simp
  from inst small obtain hl where
    l: "recordCycleStats_legacy_all ?snaps (HWStatistics_new_legacy exact_ops True 2) = Some hl"
       "2 \<le> (2::nat) \<and> length ?snaps = 2 + 1 \<longrightarrow> rotations hl = 1"
       "length ?snaps < 2 ^ 31
          \<longrightarrow> total_samples (summarizeCycleStats_legacy exact_ops hl) = int (length ?snaps)"
    by blast
  have "rotations hr = 1"
    using r(2) by simp
  moreover have "total_samples (summarizeCycleStats exact_ops hr) = 3"
    using r(3) by (simp add: cycle_snapshot)
  moreover have "rotations hl = 1"
    using l(2) by simp
  moreover have "total_samples (summarizeCycleStats_legacy exact_ops hl) = 3"
    using l(3) by simp
  ultimately show ?thesis
    using c1 c2 r(1) l(1) by simp
qed

text \<open>
  C3 as stated fails in these places. With \<open>K = 1\<close> each snapshot fills its window, and
  two snapshots rotate twice, in both variants. In the ring variant \<open>total_samples\<close> is 1
  when nothing was recorded; it is 2 after three snapshots with \<open>K = 1\<close>, the first having
  been overwritten; and it is 1 after the snapshots of cycles 1, 0 and 2 with \<open>K = 4\<close>,
  the summary stopping at the snapshot of cycle 0. After \<open>2^31\<close> snapshots \<open>total_samples\<close>,
  an \<open>int\<close>, is not \<open>2^31\<close> in either variant. In the growing variant with \<open>K = 1\<close> the
  index of the active window overflows at the \<open>2^31\<close>-th rotation, and recording one more
  snapshot indexes the list of windows out of range.
\<close>

theorem cycle_windows_counterexample:
  "map_option rotations (recordCycleStats_all [snapshot 1, snapshot 2]
       (HWStatistics_new exact_ops True 1)) = Some 2 \<and>
   map_option rotations (recordCycleStats_legacy_all [snapshot 1, snapshot 2]
       (HWStatistics_new_legacy exact_ops True 1)) = Some 2 \<and>
   total_samples (summarizeCycleStats exact_ops (HWStatistics_new exact_ops True 2)) = 1 \<and>
   map_option (\<lambda>hw. total_samples (summarizeCycleStats exact_ops hw))
     (recordCycleStats_all [snapshot 1, snapshot 2, snapshot 3]
        (HWStatistics_new exact_ops True 1)) = Some 2 \<and>
   map_option (\<lambda>hw. total_samples (summarizeCycleStats exact_ops hw))
     (recordCycleStats_all [snapshot 1, snapshot 0, snapshot 2]
        (HWStatistics_new exact_ops True 4)) = Some 1 \<and>
   (\<exists>hr. recordCycleStats_all (replicate (2 ^ 31) (snapshot 1))
            (HWStatistics_new exact_ops True (2 ^ 30)) = Some hr \<and>
      total_samples (summarizeCycleStats exact_ops hr) < 2 ^ 31) \<and>
   (\<exists>hl. recordCycleStats_legacy_all (replicate (2 ^ 31) (snapshot 1))
            (HWStatistics_new_legacy exact_ops True 2) = Some hl \<and>
      total_samples (summarizeCycleStats_legacy exact_ops hl) < 2 ^ 31) \<and>
   recordCycleStats_legacy_all (replicate (2 ^ 31 + 1) (snapshot 1))
     (HWStatistics_new_legacy exact_ops True 1) = None"
proof -
  have small: "map_option rotations (recordCycleStats_all [snapshot 1, snapshot 2]
         (HWStatistics_new exact_ops True 1)) = Some 2 \<and>
     map_option rotations (recordCycleStats_legacy_all [snapshot 1, snapshot 2]
         (HWStatistics_new_legacy exact_ops True 1)) = Some 2 \<and>
     total_samples (summarizeCycleStats exact_ops (HWStatistics_new exact_ops True 2)) = 1 \<and>
     map_option (\<lambda>hw. total_samples (summarizeCycleStats exact_ops hw))
       (recordCycleStats_all [snapshot 1, snapshot 2, snapshot 3]
          (HWStatistics_new exact_ops True 1)) = Some 2 \<and>
     map_option (\<lambda>hw. total_samples (summarizeCycleStats exact_ops hw))
       (recordCycleStats_all [snapshot 1, snapshot 0, snapshot 2]
          (HWStatistics_new exact_ops True 4)) = Some 1"
    by code_simp
  have K30: "1 \<le> (2 ^ 30 :: nat)" and K2: "1 \<le> (2 :: nat)" and K1: "1 \<le> (1 :: nat)"
    by simp_all
  from ring_inv_all [OF ring_inv_new [where A = exact_ops, OF K30] K30,
      where snaps = "replicate (2 ^ 31) (snapshot 1)"]
  obtain hr where hr: "recordCycleStats_all (replicate (2 ^ 31) (snapshot 1))
            (HWStatistics_new exact_ops True (2 ^ 30)) = Some hr"
    by auto
  have ring: "\<exists>hr. recordCycleStats_all (replicate (2 ^ 31) (snapshot 1))
            (HWStatistics_new exact_ops True (2 ^ 30)) = Some hr \<and>
      total_samples (summarizeCycleStats exact_ops hr) < 2 ^ 31"
    using hr summarizeCycleStats_bound [of exact_ops hr] by (intro exI [of _ hr] conjI)
  have "(0 + length (replicate (2 ^ 31) (snapshot 1))) div 2 < (2 ^ 31 :: nat)"
    by simp
  from legacy_inv_all [OF legacy_inv_new [where A = exact_ops, OF K2] K2 this]
  obtain hl where hl: "recordCycleStats_legacy_all (replicate (2 ^ 31) (snapshot 1))
            (HWStatistics_new_legacy exact_ops True 2) = Some hl"
    by auto
  have growing: "\<exists>hl. recordCycleStats_legacy_all (replicate (2 ^ 31) (snapshot 1))
            (HWStatistics_new_legacy exact_ops True 2) = Some hl \<and>
      total_samples (summarizeCycleStats_legacy exact_ops hl) < 2 ^ 31"
    using hl summarizeCycleStats_legacy_bound [of exact_ops hl] by (intro exI [of _ hl] conjI)
  have "(0 + length (replicate (2 ^ 31 - 1) (snapshot 1))) div 1 < (2 ^ 31 :: nat)"
    by simp
  from legacy_inv_all [OF legacy_inv_new [where A = exact_ops, OF K1] K1 this]
  obtain h1 where h1: "recordCycleStats_legacy_all (replicate (2 ^ 31 - 1) (snapshot 1))
            (HWStatistics_new_legacy exact_ops True 1) = Some h1"
      "legacy_inv 1 (2 ^ 31 - 1) h1"
    by auto
  have split: "replicate (2 ^ 31 + 1) (snapshot 1)
                 = replicate (2 ^ 31 - 1) (snapshot 1) @ [snapshot 1, snapshot 1]"
  proof -
    have "(2 ^ 31 + 1 :: nat) = (2 ^ 31 - 1) + 2"
      by simp
    then have "replicate (2 ^ 31 + 1) (snapshot 1)
                 = replicate (2 ^ 31 - 1) (snapshot 1) @ replicate 2 (snapshot 1)"
      by (simp only: replicate_add)
    then show ?thesis
      by (simp add: numeral_2_eq_2)
  qed
  have index: "recordCycleStats_legacy_all (replicate (2 ^ 31 + 1) (snapshot 1))
     (HWStatistics_new_legacy exact_ops True 1) = None"
    unfolding split recordCycleStats_legacy_all_append h1(1)
    using legacy_index_overflow [OF h1(2)] by simp
  show ?thesis
    using small ring growing index by blast
qed

end
